theory Spec2Isabelle
  imports Complex_Main "HOL-Library.AList"
begin

section \<open>Numbers, errors and the random source\<close>

text \<open>
  Python floats are modelled as reals: rounding is not modelled. What is kept of the
  double format is its range, at the places where leaving it changes the control flow
  of the program: the power operator raises OverflowError when its result exceeds the largest
  double, a product that exceeds it becomes an infinity whose cosine raises ValueError,
  and a sum that exceeds it becomes an infinity that the final clamp absorbs.
  Every raise of the source is a value \<open>Inl e\<close> of the model.
\<close>

datatype py_error =
  ZeroDivisionError | OverflowError | ValueError | TypeError | KeyError
  | AttributeError | IndexError

definition DBL_MAX :: real where
  "DBL_MAX = 2 ^ 1024 - 2 ^ 971"

text \<open>
  The operator \<open>**\<close> on two floats (float_pow of CPython): anything to the power 0 is 1;
  a zero base raises ZeroDivisionError for a negative exponent and gives 0 otherwise; a
  negative base with a fractional exponent gives a complex number, on which the later
  comparison of gielis_r would raise TypeError (gielis_r only passes bases that are
  absolute values or at least 0.0001); a result out of range raises OverflowError.
\<close>

definition float_pow :: "real \<Rightarrow> real \<Rightarrow> py_error + real" where
  "float_pow x y =
     (if y = 0 then Inr 1
      else if x = 0 then (if y < 0 then Inl ZeroDivisionError else Inr 0)
      else if x < 0 \<and> of_int \<lfloor>y\<rfloor> \<noteq> y then Inl TypeError
      else (let r = (if x < 0 \<and> odd \<lfloor>y\<rfloor> then - (\<bar>x\<bar> powr y) else \<bar>x\<bar> powr y)
            in if DBL_MAX < \<bar>r\<bar> then Inl OverflowError else Inr r))"

section \<open>gielis.py: the superformula radius\<close>

text \<open>
  The five arguments are Python numbers within the double range: floats, or ints that the
  first float operation meeting them converts without loss of range. An int beyond the
  double range is not a value of this model (its conversion raises OverflowError in the
  source). The guard on \<open>m * angle\<close> is the product that has become an infinity, whose
  cosine raises ValueError.
\<close>

definition gielis_r :: "real \<Rightarrow> real \<Rightarrow> real \<Rightarrow> real \<Rightarrow> real \<Rightarrow> py_error + real" where
  "gielis_r angle m n1 n2 n3 =
     (let n1 = (if \<bar>n1\<bar> < 0.001 then 0.001 else n1) in
      if DBL_MAX < \<bar>m * angle\<bar> then Inl ValueError
      else
        (let t = m * angle / 4 in
         case float_pow \<bar>cos t\<bar> n2 of
           Inl e \<Rightarrow> Inl e
         | Inr term1 \<Rightarrow>
             (case float_pow \<bar>sin t\<bar> n3 of
                Inl e \<Rightarrow> Inl e
              | Inr term2 \<Rightarrow>
                  (let denom = term1 + term2 in
                   if denom < 0.0001 then Inr 1
                   else if DBL_MAX < denom then Inr (if - 1 / n1 < 0 then 0.1 else 5)
                   else
                     (case float_pow denom (- 1 / n1) of
                        Inl e \<Rightarrow> Inl e
                      | Inr p \<Rightarrow> Inr (max 0.1 (min 5 p)))))))"


section \<open>The random source\<close>

text \<open>
  The module \<open>random\<close> is modelled by the stream of the values that successive calls of
  \<open>random.random()\<close> return, each in [0, 1). \<open>uniform(a, b)\<close> is \<open>a + (b - a) * random()\<close>
  as in the library; \<open>randint\<close> and \<open>choice\<close> take one value of the stream and scale it to
  an index, which gives them the support they have in the library.
  \<open>random_choice\<close> is for a non-empty sequence: every call of the source passes a list or
  string literal.
\<close>

type_synonym rng = "nat \<Rightarrow> real"

definition rng_ok :: "rng \<Rightarrow> bool" where
  "rng_ok g = (\<forall>i. 0 \<le> g i \<and> g i < 1)"

definition random_random :: "rng \<Rightarrow> real \<times> rng" where
  "random_random g = (g 0, \<lambda>i. g (Suc i))"

definition random_uniform :: "real \<Rightarrow> real \<Rightarrow> rng \<Rightarrow> real \<times> rng" where
  "random_uniform a b g = (let (u, g') = random_random g in (a + (b - a) * u, g'))"

definition random_randint :: "int \<Rightarrow> int \<Rightarrow> rng \<Rightarrow> int \<times> rng" where
  "random_randint a b g =
     (let (u, g') = random_random g in (a + \<lfloor>u * of_int (b - a + 1)\<rfloor>, g'))"

definition random_choice :: "'a list \<Rightarrow> rng \<Rightarrow> 'a \<times> rng" where
  "random_choice xs g =
     (let (u, g') = random_random g in (xs ! nat \<lfloor>u * of_nat (length xs)\<rfloor>, g'))"

text \<open>The source that returns the same value at every call, for evaluating the model.\<close>

definition rng_const :: "real \<Rightarrow> rng" where
  "rng_const u = (\<lambda>_. u)"


section \<open>config.py: the constants the genetics and the organisms read\<close>

definition START_ENERGY :: real where "START_ENERGY = 40"
definition MOVEMENT_COST :: real where "MOVEMENT_COST = 0.6"
definition IDLE_COST :: real where "IDLE_COST = 0.2"
definition MATING_COST :: real where "MATING_COST = 30"
definition MUTATION_RATE :: real where "MUTATION_RATE = 0.20"
definition MUTATION_STRENGTH :: real where "MUTATION_STRENGTH = 0.25"
definition ATTACK_COST :: real where "ATTACK_COST = 8"
definition KILL_ENERGY_GAIN :: real where "KILL_ENERGY_GAIN = 0.7"
definition MIN_FRACTAL_LEVELS :: int where "MIN_FRACTAL_LEVELS = 2"
definition MAX_FRACTAL_LEVELS :: int where "MAX_FRACTAL_LEVELS = 3"
definition MIN_CHILDREN :: int where "MIN_CHILDREN = 2"
definition MAX_CHILDREN :: int where "MAX_CHILDREN = 5"

section \<open>dna.py: genomes\<close>

text \<open>
  A genome is a Python dict in insertion order: an association list. Its values are shape
  genes (dicts themselves), ints and floats, which the code tells apart with \<open>isinstance\<close>.
  The parameters of a shape gene are numbers whose type no branch of the code inspects
  (the symmetries are ints, the others floats): the model keeps their value.
  \<open>d[k] = v\<close> is \<open>AList.update k v d\<close>: an existing key keeps its place, a new one is
  appended.
\<close>

type_synonym gene = "(string \<times> real) list"

datatype dna_value = GeneV gene | IntV int | FloatV real

type_synonym dna = "(string \<times> dna_value) list"

definition GIELIS_GENES :: "string list" where
  "GIELIS_GENES = [''lajfi_1'', ''lajfi_2'', ''lajfi_3'']"

definition random_gielis_gene :: "rng \<Rightarrow> gene \<times> rng" where
  "random_gielis_gene g0 =
     (let (m1, g1) = random_randint 3 14 g0;
          (m2, g2) = random_randint 2 12 g1;
          (n1, g3) = random_uniform 0.08 0.9 g2;
          (n2, g4) = random_uniform 0.5 3.5 g3;
          (n3, g5) = random_uniform 0.5 3.5 g4;
          (n1b, g6) = random_uniform 0.1 0.95 g5;
          (n2b, g7) = random_uniform 0.4 3.2 g6;
          (n3b, g8) = random_uniform 0.4 3.2 g7
      in ([(''m1'', of_int m1), (''m2'', of_int m2), (''n1'', n1), (''n2'', n2), (''n3'', n3),
           (''n1b'', n1b), (''n2b'', n2b), (''n3b'', n3b)], g8))"

fun random_genes :: "string list \<Rightarrow> dna \<Rightarrow> rng \<Rightarrow> dna \<times> rng" where
  "random_genes [] dna g = (dna, g)"
| "random_genes (gene # genes) dna g =
     (let (params, g') = random_gielis_gene g
      in random_genes genes (AList.update gene (GeneV params) dna) g')"

definition random_dna :: "rng \<Rightarrow> dna \<times> rng" where
  "random_dna g0 =
     (let (dna, g1) = random_genes GIELIS_GENES [] g0;
          (levels, g2) = random_randint MIN_FRACTAL_LEVELS MAX_FRACTAL_LEVELS g1;
          dna = AList.update ''fractal_levels'' (IntV levels) dna;
          (children, g3) = random_randint MIN_CHILDREN MAX_CHILDREN g2;
          dna = AList.update ''fractal_children'' (IntV children) dna;
          (scale, g4) = random_uniform 0.45 0.70 g3;
          dna = AList.update ''scale_factor'' (FloatV scale) dna;
          (speed, g5) = random_uniform 0.2 0.5 g4;
          dna = AList.update ''speed'' (FloatV speed) dna
      in (dna, g5))"

text \<open>
  \<open>combine_dna\<close>: the loop over the keys of the first parent. \<open>dna2[key]\<close> raises KeyError
  when the second parent lacks the key; \<open>.copy()\<close> on a number raises AttributeError; a
  dict in the float blend raises TypeError.
  The blend of two floats is computed here in exact arithmetic; the source rounds it.
\<close>

fun combine_keys :: "string list \<Rightarrow> dna \<Rightarrow> dna \<Rightarrow> dna \<Rightarrow> rng \<Rightarrow> py_error + (dna \<times> rng)" where
  "combine_keys [] dna1 dna2 child_dna g = Inr (child_dna, g)"
| "combine_keys (key # keys) dna1 dna2 child_dna g =
     (case map_of dna1 key of
        None \<Rightarrow> Inl KeyError
      | Some (GeneV gene1) \<Rightarrow>
          (let (u, g') = random_random g in
           if u < 0.5 then combine_keys keys dna1 dna2 (AList.update key (GeneV gene1) child_dna) g'
           else
             (case map_of dna2 key of
                None \<Rightarrow> Inl KeyError
              | Some (GeneV gene2) \<Rightarrow>
                  combine_keys keys dna1 dna2 (AList.update key (GeneV gene2) child_dna) g'
              | Some _ \<Rightarrow> Inl AttributeError))
      | Some (IntV n1) \<Rightarrow>
          (case map_of dna2 key of
             None \<Rightarrow> Inl KeyError
           | Some v2 \<Rightarrow>
               (let (v, g') = random_choice [IntV n1, v2] g
                in combine_keys keys dna1 dna2 (AList.update key v child_dna) g'))
      | Some (FloatV x1) \<Rightarrow>
          (let (mix, g') = random_uniform 0.3 0.7 g in
           case map_of dna2 key of
             None \<Rightarrow> Inl KeyError
           | Some (GeneV gene2) \<Rightarrow> Inl TypeError
           | Some (IntV n2) \<Rightarrow>
               combine_keys keys dna1 dna2
                 (AList.update key (FloatV (x1 * mix + of_int n2 * (1 - mix))) child_dna) g'
           | Some (FloatV x2) \<Rightarrow>
               combine_keys keys dna1 dna2
                 (AList.update key (FloatV (x1 * mix + x2 * (1 - mix))) child_dna) g'))"

definition combine_dna :: "dna \<Rightarrow> dna \<Rightarrow> rng \<Rightarrow> py_error + (dna \<times> rng)" where
  "combine_dna dna1 dna2 g = combine_keys (map fst dna1) dna1 dna2 [] g"

text \<open>
  The pairs of genomes on which no line of \<open>combine_dna\<close> raises: the second parent has
  every key of the first, with a shape gene where the first has one (\<open>.copy()\<close>) and a
  number where the first has a float (the blend). Two genomes that descend from
  \<open>random_dna\<close> are such a pair.
\<close>

fun kinds_match :: "dna_value \<Rightarrow> dna_value \<Rightarrow> bool" where
  "kinds_match (GeneV gene1) v2 = (case v2 of GeneV gene2 \<Rightarrow> True | _ \<Rightarrow> False)"
| "kinds_match (IntV n1) v2 = True"
| "kinds_match (FloatV x1) v2 = (case v2 of GeneV gene2 \<Rightarrow> False | _ \<Rightarrow> True)"

definition compatible :: "dna \<Rightarrow> dna \<Rightarrow> bool" where
  "compatible dna1 dna2 =
     (\<forall>(key, v1) \<in> set dna1.
        case map_of dna2 key of None \<Rightarrow> False | Some v2 \<Rightarrow> kinds_match v1 v2)"

text \<open>
  \<open>mutate_dna\<close>. The inner loop runs over the items of a gene and writes into its copy.
  \<open>max(lo, min(hi, v))\<close> on a genome value returns one of its arguments, so a float that
  leaves the bounds becomes the int bound.
\<close>

fun mutate_gene :: "(string \<times> real) list \<Rightarrow> gene \<Rightarrow> rng \<Rightarrow> gene \<times> rng" where
  "mutate_gene [] new_gene g = (new_gene, g)"
| "mutate_gene ((gkey, gval) # items) new_gene g =
     (let (u, g1) = random_random g in
      if u < MUTATION_RATE then
        (if gkey \<in> set [''m1'', ''m2''] then
           (let (k, g2) = random_randint (- 2) 2 g1
            in mutate_gene items (AList.update gkey (max 3 (min 12 (gval + of_int k))) new_gene) g2)
         else
           (let (r, g2) = random_uniform (- 1) 1 g1;
                change = gval * MUTATION_STRENGTH * r
            in mutate_gene items (AList.update gkey (max 0.1 (min 3.0 (gval + change))) new_gene) g2))
      else mutate_gene items new_gene g1)"

fun add_step :: "dna_value \<Rightarrow> int \<Rightarrow> dna_value" where
  "add_step (IntV n) k = IntV (n + k)"
| "add_step (FloatV x) k = FloatV (x + of_int k)"
| "add_step (GeneV gene) k = GeneV gene"

fun clamp_value :: "int \<Rightarrow> int \<Rightarrow> dna_value \<Rightarrow> dna_value" where
  "clamp_value lo hi (IntV n) = IntV (max lo (min hi n))"
| "clamp_value lo hi (FloatV x) =
     (if x < of_int hi then (if of_int lo < x then FloatV x else IntV lo)
      else IntV (max lo hi))"
| "clamp_value lo hi (GeneV gene) = GeneV gene"

fun mutate_items :: "(string \<times> dna_value) list \<Rightarrow> dna \<Rightarrow> rng \<Rightarrow> dna \<times> rng" where
  "mutate_items [] mutated g = (mutated, g)"
| "mutate_items ((key, value) # items) mutated g =
     (case value of
        GeneV gene \<Rightarrow>
          (let (new_gene, g') = mutate_gene gene gene g
           in mutate_items items (AList.update key (GeneV new_gene) mutated) g')
      | _ \<Rightarrow>
          if key = ''fractal_levels'' then
            (let (u, g1) = random_random g in
             if u < MUTATION_RATE then
               (let (k, g2) = random_choice [- 1, 0, 1] g1
                in mutate_items items
                     (AList.update key
                        (clamp_value MIN_FRACTAL_LEVELS MAX_FRACTAL_LEVELS (add_step value k)) mutated) g2)
             else mutate_items items (AList.update key value mutated) g1)
          else if key = ''fractal_children'' then
            (let (u, g1) = random_random g in
             if u < MUTATION_RATE then
               (let (k, g2) = random_choice [- 1, 0, 1] g1
                in mutate_items items
                     (AList.update key
                        (clamp_value MIN_CHILDREN MAX_CHILDREN (add_step value k)) mutated) g2)
             else mutate_items items (AList.update key value mutated) g1)
          else
            (case value of
               FloatV x \<Rightarrow>
                 (let (u, g1) = random_random g in
                  if u < MUTATION_RATE then
                    (let (r, g2) = random_uniform (- 1) 1 g1;
                         change = x * MUTATION_STRENGTH * r
                     in mutate_items items (AList.update key (FloatV (max 0.1 (x + change))) mutated) g2)
                  else mutate_items items (AList.update key value mutated) g1)
             | _ \<Rightarrow> mutate_items items (AList.update key value mutated) g))"

definition mutate_dna :: "dna \<Rightarrow> rng \<Rightarrow> dna \<times> rng" where
  "mutate_dna dna g = mutate_items dna [] g"

text \<open>
  The range of every field of a genome: for a parameter of a shape gene, the hull of the
  interval that \<open>random_gielis_gene\<close> samples and of the interval that \<open>mutate_dna\<close>
  clamps a mutated value to; for the fractal depth and branching the configured bounds;
  for the scale factor and the speed the floor 0.1 of the mutation (they have no upper
  bound: a mutation may add a quarter of the value each time).
\<close>

definition gene_field_ok :: "string \<Rightarrow> real \<Rightarrow> bool" where
  "gene_field_ok k v =
     (if k = ''m1'' then 3 \<le> v \<and> v \<le> 14
      else if k = ''m2'' then 2 \<le> v \<and> v \<le> 12
      else if k = ''n1'' then 0.08 \<le> v \<and> v \<le> 3
      else if k = ''n2'' \<or> k = ''n3'' then 0.1 \<le> v \<and> v \<le> 3.5
      else if k = ''n1b'' then 0.1 \<le> v \<and> v \<le> 3
      else if k = ''n2b'' \<or> k = ''n3b'' then 0.1 \<le> v \<and> v \<le> 3.2
      else True)"

definition gene_ok :: "gene \<Rightarrow> bool" where
  "gene_ok gene = (\<forall>(k, v) \<in> set gene. gene_field_ok k v)"

definition value_ok :: "string \<Rightarrow> dna_value \<Rightarrow> bool" where
  "value_ok key value =
     (case value of
        GeneV gene \<Rightarrow> gene_ok gene
      | IntV n \<Rightarrow>
          (if key = ''fractal_levels'' then MIN_FRACTAL_LEVELS \<le> n \<and> n \<le> MAX_FRACTAL_LEVELS
           else if key = ''fractal_children'' then MIN_CHILDREN \<le> n \<and> n \<le> MAX_CHILDREN
           else key \<noteq> ''scale_factor'' \<and> key \<noteq> ''speed'')
      | FloatV x \<Rightarrow>
          (if key = ''scale_factor'' \<or> key = ''speed'' then 0.1 \<le> x
           else key \<noteq> ''fractal_levels'' \<and> key \<noteq> ''fractal_children''))"

definition dna_ok :: "dna \<Rightarrow> bool" where
  "dna_ok dna = (\<forall>(key, value) \<in> set dna. value_ok key value)"

text \<open>
  The same ranges without the floor of the float traits: what holds of a genome whose
  scale factor and speed are blends \<open>dna1[key] * mix + dna2[key] * (1 - mix)\<close>. A blend
  of two floats is a rounded double, which can fall one unit in the last place below the
  smaller of the two; so no bound is stated of it.
\<close>

definition discrete_ok :: "string \<Rightarrow> dna_value \<Rightarrow> bool" where
  "discrete_ok key value =
     (case value of
        FloatV x \<Rightarrow> key \<noteq> ''fractal_levels'' \<and> key \<noteq> ''fractal_children''
      | _ \<Rightarrow> value_ok key value)"

definition dna_discrete_ok :: "dna \<Rightarrow> bool" where
  "dna_discrete_ok dna = (\<forall>(key, value) \<in> set dna. discrete_ok key value)"

text \<open>The field \<open>dna[key][f]\<close> of a genome, where it exists.\<close>

definition gene_field :: "dna \<Rightarrow> string \<Rightarrow> string \<Rightarrow> real option" where
  "gene_field dna key f = (case map_of dna key of Some (GeneV gene) \<Rightarrow> map_of gene f | _ \<Rightarrow> None)"

text \<open>
  What \<open>mutate_dna\<close> does to one field of a shape gene: it leaves it as it is, or sets it
  within the clamp of its kind.
\<close>

definition field_mutated :: "string \<Rightarrow> real option \<Rightarrow> real option \<Rightarrow> bool" where
  "field_mutated f old new =
     (new = old \<or>
      (case new of
         None \<Rightarrow> False
       | Some v \<Rightarrow> if f \<in> set [''m1'', ''m2''] then 3 \<le> v \<and> v \<le> 12 else 0.1 \<le> v \<and> v \<le> 3))"

text \<open>What one round of the loop of \<open>mutate_dna\<close> guarantees of the value it stores.\<close>

definition mutate_step_ok :: "string \<Rightarrow> dna_value \<Rightarrow> rng \<Rightarrow> dna_value \<Rightarrow> rng \<Rightarrow> bool" where
  "mutate_step_ok key value g v g' =
     ((value_ok key value \<longrightarrow> value_ok key v) \<and> (rng_ok g \<longrightarrow> rng_ok g') \<and>
      (\<forall>gene. value = GeneV gene \<longrightarrow> (\<exists>g1. v = GeneV (fst (mutate_gene gene gene g1)))))"


section \<open>creature.py: organisms\<close>

text \<open>
  A position is a list of three floats everywhere in the program (a literal \<open>[x, y, z]\<close> or
  the list of a Blender vector): a triple. The Blender object of an organism is kept as
  its location, \<open>None\<close> until \<open>build_mesh\<close> has run; Blender keeps the coordinates of a
  location in single precision, which the model does not round. The class attribute
  \<open>TriadCreature.counter\<close> is threaded through the constructor.
\<close>

type_synonym vec = "real \<times> real \<times> real"

definition WORLD_SIZE :: real where "WORLD_SIZE = 20"

record creature =
  cid :: nat
  name :: string
  dna :: dna
  position :: vec
  energy :: real
  age :: int
  obj :: "vec option"
  generation :: int
  parents :: "string list"
  children_count :: int
  meals_eaten :: int
  mating_cooldown :: int

fun vsub :: "vec \<Rightarrow> vec \<Rightarrow> vec" where
  "vsub (a, b, c) (x, y, z) = (a - x, b - y, c - z)"

fun vadd :: "vec \<Rightarrow> vec \<Rightarrow> vec" where
  "vadd (a, b, c) (x, y, z) = (a + x, b + y, c + z)"

fun vscale :: "vec \<Rightarrow> real \<Rightarrow> vec" where
  "vscale (a, b, c) k = (a * k, b * k, c * k)"

fun vlength :: "vec \<Rightarrow> real" where
  "vlength (a, b, c) = sqrt (a * a + b * b + c * c)"

text \<open>\<open>Vector.normalize()\<close> leaves the zero vector as it is.\<close>

definition normalize :: "vec \<Rightarrow> vec" where
  "normalize v = (if vlength v = 0 then v else vscale v (1 / vlength v))"

fun scale_z :: "vec \<Rightarrow> real \<Rightarrow> vec" where
  "scale_z (a, b, c) k = (a, b, c * k)"

text \<open>
  A number read from the genome and used in arithmetic: a missing key raises KeyError, a
  shape gene (a dict) in a product raises TypeError.
\<close>

definition dna_number :: "dna \<Rightarrow> string \<Rightarrow> py_error + real" where
  "dna_number d key =
     (case map_of d key of
        None \<Rightarrow> Inl KeyError
      | Some (GeneV gene) \<Rightarrow> Inl TypeError
      | Some (IntV n) \<Rightarrow> Inr (of_int n)
      | Some (FloatV x) \<Rightarrow> Inr x)"

definition upper :: "string \<Rightarrow> string" where
  "upper s = map (\<lambda>c. if 97 \<le> (of_char c :: nat) \<and> (of_char c :: nat) \<le> 122
                       then char_of ((of_char c :: nat) - 32) else c) s"

fun name_letters :: "nat \<Rightarrow> nat \<Rightarrow> rng \<Rightarrow> string \<times> rng" where
  "name_letters i 0 g = ([], g)"
| "name_letters i (Suc k) g =
     (let (ch, g1) = random_choice (if i mod 2 = 0 then ''bdfgklmnprstvz'' else ''aeiou'') g;
          (rest, g2) = name_letters (Suc i) k g1
      in (ch # rest, g2))"

definition generate_name :: "rng \<Rightarrow> string \<times> rng" where
  "generate_name g =
     (let (n, g1) = random_randint 3 5 g;
          (letters, g2) = name_letters 0 (nat n) g1
      in (upper letters, g2))"

text \<open>
  The constructor. \<open>dna or random_dna()\<close> takes a fresh genome also for an empty dict;
  a position, when given, is a non-empty list.
\<close>

definition new_creature ::
  "dna option \<Rightarrow> vec option \<Rightarrow> string list option \<Rightarrow> nat \<Rightarrow> rng \<Rightarrow> creature \<times> nat \<times> rng" where
  "new_creature dna_arg position_arg parents_arg counter g =
     (let counter = counter + 1;
          (nm, g1) = generate_name g;
          (d, g2) = (case dna_arg of
                       None \<Rightarrow> random_dna g1
                     | Some d \<Rightarrow> if d = [] then random_dna g1 else (d, g1));
          (pos, g3) = (case position_arg of
                         Some p \<Rightarrow> (p, g2)
                       | None \<Rightarrow>
                           (let (x, ga) = random_uniform (- WORLD_SIZE / 2 + 3) (WORLD_SIZE / 2 - 3) g2;
                                (y, gb) = random_uniform (- WORLD_SIZE / 2 + 3) (WORLD_SIZE / 2 - 3) ga
                            in ((x, y, 1), gb)))
      in (\<lparr>cid = counter, name = nm, dna = d, position = pos, energy = START_ENERGY, age = 0,
           obj = None, generation = 1,
           parents = (case parents_arg of None \<Rightarrow> [] | Some ps \<Rightarrow> ps),
           children_count = 0, meals_eaten = 0, mating_cooldown = 0\<rparr>, counter, g3))"

definition update :: "creature \<Rightarrow> creature" where
  "update c =
     (let c = c\<lparr>age := age c + 1, energy := energy c - IDLE_COST\<rparr>
      in if mating_cooldown c > 0 then c\<lparr>mating_cooldown := mating_cooldown c - 1\<rparr> else c)"

definition clamp_to_world :: "creature \<Rightarrow> creature" where
  "clamp_to_world c =
     (case obj c of
        None \<Rightarrow> c
      | Some location \<Rightarrow>
          (let boundary = WORLD_SIZE / 2 - 2;
               (x, y, z) = position c;
               x' = (if x > boundary then boundary else if x < - boundary then - boundary else x);
               y' = (if y > boundary then boundary else if y < - boundary then - boundary else y);
               z' = (if z < 0.5 then 0.5 else if z > 3 then 3 else z);
               changed = (x > boundary \<or> x < - boundary \<or> y > boundary \<or> y < - boundary
                          \<or> z < 0.5 \<or> z > 3)
           in c\<lparr>position := (x', y', z'),
                obj := Some (if changed then (x', y', z') else location)\<rparr>))"

definition move_towards :: "creature \<Rightarrow> vec \<Rightarrow> py_error + creature" where
  "move_towards c target_pos =
     (case obj c of
        None \<Rightarrow> Inr c
      | Some location \<Rightarrow>
          (let direction = scale_z (vsub target_pos (position c)) 0.2 in
           if vlength direction > 0.1 then
             (case dna_number (dna c) ''speed'' of
                Inl e \<Rightarrow> Inl e
              | Inr speed \<Rightarrow>
                  (let location = vadd location (vscale (normalize direction) speed)
                   in Inr (clamp_to_world
                         (c\<lparr>obj := Some location, position := location,
                            energy := energy c - MOVEMENT_COST\<rparr>))))
           else Inr (clamp_to_world c)))"

definition move_random :: "creature \<Rightarrow> rng \<Rightarrow> py_error + (creature \<times> rng)" where
  "move_random c g =
     (case obj c of
        None \<Rightarrow> Inr (c, g)
      | Some location \<Rightarrow>
          (let (x, g1) = random_uniform (- 1) 1 g;
               (y, g2) = random_uniform (- 1) 1 g1;
               (z, g3) = random_uniform (- 1) 1 g2;
               direction = scale_z (x, y, z) 0.1
           in if vlength direction > 0 then
                (case dna_number (dna c) ''speed'' of
                   Inl e \<Rightarrow> Inl e
                 | Inr speed \<Rightarrow>
                     (let location = vadd location (vscale (vscale (normalize direction) speed) 0.5)
                      in Inr (clamp_to_world
                            (c\<lparr>obj := Some location, position := location,
                               energy := energy c - MOVEMENT_COST * 0.5\<rparr>), g3)))
              else Inr (clamp_to_world c, g3)))"

text \<open>\<open>eat\<close> reads the energy of the plant; the plant itself is not changed.\<close>

definition eat :: "creature \<Rightarrow> real \<Rightarrow> creature" where
  "eat c plant_energy = c\<lparr>energy := energy c + plant_energy, meals_eaten := meals_eaten c + 1\<rparr>"

definition get_strength :: "creature \<Rightarrow> py_error + real" where
  "get_strength c =
     (let base = energy c * 0.5 in
      case dna_number (dna c) ''fractal_levels'' of
        Inl e \<Rightarrow> Inl e
      | Inr levels \<Rightarrow>
          (case dna_number (dna c) ''fractal_children'' of
             Inl e \<Rightarrow> Inl e
           | Inr children \<Rightarrow> Inr (base + levels * 5 + children * 2)))"

text \<open>\<open>attack\<close> returns the outcome with the attacker as the call leaves it.\<close>

definition attack :: "creature \<Rightarrow> creature \<Rightarrow> rng \<Rightarrow> py_error + (bool \<times> creature \<times> rng)" where
  "attack c prey g =
     (let c = c\<lparr>energy := energy c - ATTACK_COST\<rparr> in
      case get_strength c of
        Inl e \<Rightarrow> Inl e
      | Inr my_strength \<Rightarrow>
          (case get_strength prey of
             Inl e \<Rightarrow> Inl e
           | Inr their_strength \<Rightarrow>
               (let (m1, g1) = random_uniform 0.8 1.2 g;
                    my_roll = my_strength * m1;
                    (m2, g2) = random_uniform 0.6 1.4 g1;
                    their_roll = their_strength * m2
                in Inr (my_roll > their_roll, c, g2))))"

definition devour :: "creature \<Rightarrow> creature \<Rightarrow> real \<times> creature" where
  "devour c victim =
     (let energy_gained = energy victim * KILL_ENERGY_GAIN
      in (energy_gained,
          c\<lparr>energy := energy c + energy_gained, meals_eaten := meals_eaten c + 1\<rparr>))"


text \<open>
  \<open>mate_with\<close> on two different organisms; it returns both parents as the call leaves
  them, and the child.
\<close>

definition mate_with ::
  "creature \<Rightarrow> creature \<Rightarrow> nat \<Rightarrow> rng \<Rightarrow>
     py_error + (creature \<times> creature \<times> creature \<times> nat \<times> rng)" where
  "mate_with c partner counter g =
     (let c = c\<lparr>energy := energy c - MATING_COST\<rparr>;
          partner = partner\<lparr>energy := energy partner - MATING_COST\<rparr>;
          c = c\<lparr>mating_cooldown := 50\<rparr>;
          partner = partner\<lparr>mating_cooldown := 50\<rparr>
      in case combine_dna (dna c) (dna partner) g of
           Inl e \<Rightarrow> Inl e
         | Inr (child_dna, g1) \<Rightarrow>
             (let (child_dna, g2) = mutate_dna child_dna g1;
                  (jx, g3) = random_uniform (- 1) 1 g2;
                  (jy, g4) = random_uniform (- 1) 1 g3;
                  child_pos = ((fst (position c) + fst (position partner)) / 2 + jx,
                               (fst (snd (position c)) + fst (snd (position partner))) / 2 + jy,
                               1);
                  (child, counter, g5) =
                     new_creature (Some child_dna) (Some child_pos) (Some [name c, name partner])
                       counter g4;
                  child = child\<lparr>generation := max (generation c) (generation partner) + 1\<rparr>;
                  c = c\<lparr>children_count := children_count c + 1\<rparr>;
                  partner = partner\<lparr>children_count := children_count partner + 1\<rparr>
              in Inr (c, partner, child, counter, g5)))"


text \<open>The parts of the result of \<open>mate_with\<close>, and two organisms to evaluate the model on.\<close>

definition mate_first :: "py_error + (creature \<times> creature \<times> creature \<times> nat \<times> rng) \<Rightarrow> creature option" where
  "mate_first r = (case r of Inl e \<Rightarrow> None | Inr (c, partner, child, counter, g) \<Rightarrow> Some c)"


definition mate_child :: "py_error + (creature \<times> creature \<times> creature \<times> nat \<times> rng) \<Rightarrow> creature option" where
  "mate_child r = (case r of Inl e \<Rightarrow> None | Inr (c, partner, child, counter, g) \<Rightarrow> Some child)"

definition attack_outcome :: "py_error + (bool \<times> creature \<times> rng) \<Rightarrow> (bool \<times> real) option" where
  "attack_outcome r = (case r of Inl e \<Rightarrow> None | Inr (won, c, g) \<Rightarrow> Some (won, energy c))"

definition demo_a :: creature where
  "demo_a = \<lparr>cid = 1, name = ''BOKA'',
      dna = [(''lajfi_1'', GeneV [(''m1'', 5), (''n1'', 1 / 2)]), (''fractal_levels'', IntV 2),
             (''fractal_children'', IntV 3), (''speed'', FloatV (3 / 10))],
      position = (0, 0, 3), energy = 80, age = 30, obj = Some (0, 0, 3), generation = 1,
      parents = [], children_count = 0, meals_eaten = 0, mating_cooldown = 0\<rparr>"

definition demo_b :: creature where
  "demo_b = \<lparr>cid = 2, name = ''ZOMPA'',
      dna = [(''lajfi_1'', GeneV [(''m1'', 7), (''n1'', 1 / 4)]), (''fractal_levels'', IntV 3),
             (''fractal_children'', IntV 2), (''speed'', FloatV (2 / 5))],
      position = (2, 0, 3), energy = 80, age = 25, obj = Some (2, 0, 3), generation = 2,
      parents = [], children_count = 1, meals_eaten = 4, mating_cooldown = 0\<rparr>"


section \<open>plant.py: resources\<close>


record plant =
  pid :: nat
  p_position :: vec
  p_energy :: real
  p_obj :: bool
  p_age :: int



section \<open>world.py: the simulator\<close>


text \<open>
  The globals of the module, with the counter of the organisms' class and the next
  identity of a plant. The organisms in the lists are mutable objects: the model keeps
  their current state in the list \<open>creatures\<close> and refers to an organism by its \<open>cid\<close>,
  which the class counter makes unique.
\<close>

record world =
  creatures :: "creature list"
  plants :: "plant list"
  creature_counter :: nat
  plant_ids :: nat
  generation_record :: int
  last_export_time :: real

text \<open>
  \<open>build_mesh\<close> drives Blender: it takes random numbers (how many depends on the meshes
  Blender joins) and may raise; then it stores the object at the position of the
  organism. The Blender part is the parameter \<open>mesh\<close>.
\<close>

type_synonym mesh_builder = "creature \<Rightarrow> rng \<Rightarrow> py_error + rng"


definition mesh_skip :: "nat \<Rightarrow> mesh_builder" where
  "mesh_skip n c g = Inr (\<lambda>i. g (i + n))"




























definition population :: "world \<times> rng \<Rightarrow> nat" where
  "population r = length (creatures (fst r))"

definition seedling :: "nat \<Rightarrow> plant" where
  "seedling i =
     \<lparr>pid = i, p_position = (2, 18 / 5, 3 / 10), p_energy = 25, p_obj = True, p_age = 4\<rparr>"

definition grove :: "plant list" where
  "grove = [seedling 1, seedling 2, seedling 3, seedling 4, seedling 5, seedling 6, seedling 7]"






definition fledgling :: "nat \<Rightarrow> real \<Rightarrow> creature" where
  "fledgling i x = demo_a\<lparr>cid := i, age := 5, position := (x, 0, 1), obj := Some (x, 0, 1)\<rparr>"

definition trio :: world where
  "trio = \<lparr>creatures = [demo_a, demo_b, fledgling 3 (- 6)], plants = seedling 0 # grove,
     creature_counter = 3, plant_ids = 8, generation_record = 2, last_export_time = 0\<rparr>"

definition crowd :: world where
  "crowd = \<lparr>creatures = [fledgling 1 (- 6), fledgling 2 (- 2), fledgling 3 2, fledgling 4 6],
     plants = seedling 0 # grove, creature_counter = 4, plant_ids = 8, generation_record = 1,
     last_export_time = 0\<rparr>"

section \<open>Properties of the random source\<close>

lemma random_random_ok:
  assumes "rng_ok g" "random_random g = (u, g')"
  shows "0 \<le> u \<and> u < 1 \<and> rng_ok g'"
  using assms by (auto simp: rng_ok_def random_random_def)

lemma random_uniform_range:
  assumes "rng_ok g" "a \<le> b" "random_uniform a b g = (x, g')"
  shows "a \<le> x \<and> x \<le> b \<and> rng_ok g'"
proof -
  obtain u where u: "random_random g = (u, g')" "x = a + (b - a) * u"
    using assms(3) by (auto simp: random_uniform_def split: prod.splits)
  from random_random_ok[OF assms(1) u(1)] have r: "0 \<le> u" "u < 1" "rng_ok g'" by auto
  have "0 \<le> (b - a) * u" using r assms(2) by simp
  moreover have "(b - a) * u \<le> (b - a) * 1"
    using r assms(2) by (intro mult_left_mono) auto
  ultimately show ?thesis using u r by simp
qed

lemma floor_scale_range:
  assumes "0 \<le> u" "u < 1" "0 < n"
  shows "0 \<le> \<lfloor>u * of_int n\<rfloor> \<and> \<lfloor>u * of_int n\<rfloor> < (n::int)"
proof -
  have "0 \<le> u * of_int n" using assms by simp
  moreover have "u * of_int n < 1 * of_int n"
    using assms by (intro mult_strict_right_mono) auto
  ultimately show ?thesis by (simp add: floor_less_iff)
qed

lemma random_randint_range:
  assumes "rng_ok g" "a \<le> b" "random_randint a b g = (n, g')"
  shows "a \<le> n \<and> n \<le> b \<and> rng_ok g'"
proof -
  obtain u where u: "random_random g = (u, g')" "n = a + \<lfloor>u * of_int (b - a + 1)\<rfloor>"
    using assms(3) by (auto simp: random_randint_def split: prod.splits)
  from random_random_ok[OF assms(1) u(1)] have r: "0 \<le> u" "u < 1" "rng_ok g'" by auto
  from floor_scale_range[OF r(1,2), of "b - a + 1"] assms(2) u(2) r(3)
  show ?thesis by auto
qed

lemma random_choice_mem:
  assumes "rng_ok g" "xs \<noteq> []" "random_choice xs g = (x, g')"
  shows "x \<in> set xs \<and> rng_ok g'"
proof -
  obtain u where u: "random_random g = (u, g')" "x = xs ! nat \<lfloor>u * of_nat (length xs)\<rfloor>"
    using assms(3) by (auto simp: random_choice_def split: prod.splits)
  from random_random_ok[OF assms(1) u(1)] have r: "0 \<le> u" "u < 1" "rng_ok g'" by auto
  from floor_scale_range[OF r(1,2), of "int (length xs)"] assms(2)
  have "nat \<lfloor>u * of_nat (length xs)\<rfloor> < length xs" by (simp add: nat_less_iff)
  then show ?thesis using u r by simp
qed


section \<open>Properties of the superformula radius\<close>

lemma DBL_MAX_ge_4: "4 \<le> DBL_MAX"
  unfolding DBL_MAX_def by simp

lemma DBL_MAX_ge_pow10: "(10::real) ^ 308 \<le> DBL_MAX"
  unfolding DBL_MAX_def by simp

lemma half_sqrt2_pow6: "\<bar>sqrt 2 / 2\<bar> powr 6 = 1 / 8"
proof -
  have "\<bar>sqrt 2 / 2\<bar> powr 6 = (sqrt 2 / 2) ^ 6"
    by simp
  also have "\<dots> = (sqrt 2) ^ 6 / 2 ^ 6"
    by (simp add: power_divide)
  also have "(sqrt 2) ^ 6 = ((sqrt 2)\<^sup>2) ^ 3"
    by (simp add: power_mult[symmetric] del: real_sqrt_pow2)
  finally show ?thesis by simp
qed

lemma float_pow_half_sqrt2: "float_pow \<bar>sqrt 2 / 2\<bar> 6 = Inr (1 / 8)"
proof -
  have "\<bar>sqrt 2 / 2\<bar> \<noteq> 0" by simp
  moreover have "\<not> \<bar>sqrt 2 / 2\<bar> < 0" by simp
  moreover have "\<bar>\<bar>sqrt 2 / 2\<bar>\<bar> = \<bar>sqrt 2 / 2\<bar>" by simp
  moreover have "\<not> DBL_MAX < \<bar>1 / 8\<bar>" using DBL_MAX_ge_4 by simp
  ultimately show ?thesis
    unfolding float_pow_def Let_def by (simp only: half_sqrt2_pow6 if_False) simp
qed

lemma float_pow_quarter_overflow: "float_pow (1 / 4) (- 1000) = Inl OverflowError"
proof -
  have "(1 / 4 :: real) powr (- 1000) = inverse ((1 / 4) ^ 1000)"
    by (simp only: powr_minus) simp
  also have "\<dots> = 4 ^ 1000"
    by (simp add: power_one_over)
  finally have e: "\<bar>1 / 4 :: real\<bar> powr (- 1000) = 4 ^ 1000" by simp
  have "DBL_MAX < \<bar>(4::real) ^ 1000\<bar>"
    unfolding DBL_MAX_def by simp
  then show ?thesis
    unfolding float_pow_def Let_def by (simp only: e) simp
qed

lemma gielis_r_zero_division: "gielis_r 0 1 1 1 (- 1) = Inl ZeroDivisionError"
  by (simp add: gielis_r_def float_pow_def DBL_MAX_def)

lemma gielis_r_overflow: "gielis_r pi 1 0 6 6 = Inl OverflowError"
proof -
  have "pi \<le> DBL_MAX"
    using pi_less_4 DBL_MAX_ge_4 by linarith
  then have a: "\<not> DBL_MAX < \<bar>1 * pi\<bar>" by simp
  have c: "cos (1 * pi / 4) = sqrt 2 / 2" "sin (1 * pi / 4) = sqrt 2 / 2"
    by (simp_all add: cos_45 sin_45)
  have d: "(1 / 8 + 1 / 8 :: real) = 1 / 4" "- 1 / (0.001::real) = - 1000"
    by simp_all
  have n: "(if \<bar>0::real\<bar> < 0.001 then 0.001 else 0) = (0.001::real)"
    by simp
  show ?thesis
    unfolding gielis_r_def Let_def
    apply (simp only: n a if_False c float_pow_half_sqrt2 sum.case d float_pow_quarter_overflow)
    using DBL_MAX_ge_4 apply simp
    done
qed

lemma float_pow_unit:
  assumes "0 \<le> x" "x \<le> 1" "0 \<le> y"
  shows "\<exists>r. float_pow x y = Inr r \<and> 0 \<le> r \<and> r \<le> 1"
proof -
  have big: "1 \<le> DBL_MAX"
    using DBL_MAX_ge_4 by simp
  show ?thesis
  proof (cases "y = 0 \<or> x = 0")
    case True
    with assms show ?thesis
      by (auto simp: float_pow_def)
  next
    case False
    then have "0 < x" "0 < y"
      using assms by auto
    have "x powr y \<le> 1 powr y"
      using assms by (intro powr_mono2) auto
    then have "x powr y \<le> 1" by simp
    moreover have "0 \<le> x powr y" by simp
    ultimately show ?thesis
      using False \<open>0 < x\<close> big by (simp add: float_pow_def Let_def)
  qed
qed

lemma float_pow_denom:
  assumes d: "1 / 10 ^ 4 \<le> d" "d \<le> 2" and e: "\<bar>e\<bar> \<le> 77"
  shows "\<exists>p. float_pow d e = Inr p"
proof -
  have dpos: "0 < d"
    using d(1) by (smt (verit) divide_pos_pos zero_less_power)
  have bound: "d powr e \<le> 10 ^ 308"
  proof (cases "e \<le> 0")
    case True
    have "d powr e \<le> (1 / 10 ^ 4) powr e"
      using True d(1) by (intro powr_mono2') auto
    also have "\<dots> = (10 ^ 4) powr (- e)"
      by (simp add: powr_minus powr_divide inverse_eq_divide)
    also have "\<dots> \<le> (10 ^ 4) powr 77"
      using e by (intro powr_mono) auto
    also have "\<dots> = 10 ^ 308" by simp
    finally show ?thesis .
  next
    case False
    have "d powr e \<le> 2 powr e"
      using False d(2) dpos by (intro powr_mono2) auto
    also have "\<dots> \<le> 2 powr 77"
      using e by (intro powr_mono) auto
    also have "\<dots> = 2 ^ 77" by simp
    also have "\<dots> \<le> (10::real) ^ 308" by simp
    finally show ?thesis .
  qed
  with DBL_MAX_ge_pow10 have "\<not> DBL_MAX < \<bar>d powr e\<bar>" by simp
  then show ?thesis
    using dpos by (auto simp: float_pow_def Let_def)
qed

lemma gielis_r_in_range:
  assumes "gielis_r angle m n1 n2 n3 = Inr r"
  shows "1 / 10 \<le> r \<and> r \<le> 5"
  using assms unfolding gielis_r_def Let_def
  by (auto split: if_splits sum.splits)

lemma gielis_r_neutral:
  assumes "\<bar>m * angle\<bar> \<le> DBL_MAX"
    and "float_pow \<bar>cos (m * angle / 4)\<bar> n2 = Inr term1"
    and "float_pow \<bar>sin (m * angle / 4)\<bar> n3 = Inr term2"
    and "term1 + term2 < 1 / 10 ^ 4"
  shows "gielis_r angle m n1 n2 n3 = Inr 1"
  using assms unfolding gielis_r_def Let_def by simp

lemma gielis_r_returns:
  assumes "\<bar>m * angle\<bar> \<le> DBL_MAX" "13 / 1000 \<le> \<bar>n1\<bar>" "\<bar>n1\<bar> \<le> DBL_MAX"
    and "0 \<le> n2" "n2 \<le> DBL_MAX" "0 \<le> n3" "n3 \<le> DBL_MAX"
  shows "\<exists>r. gielis_r angle m n1 n2 n3 = Inr r"
proof -
  define t where "t = m * angle / 4"
  obtain term1 where t1: "float_pow \<bar>cos t\<bar> n2 = Inr term1" "0 \<le> term1" "term1 \<le> 1"
    using float_pow_unit[of "\<bar>cos t\<bar>" n2] assms by auto
  obtain term2 where t2: "float_pow \<bar>sin t\<bar> n3 = Inr term2" "0 \<le> term2" "term2 \<le> 1"
    using float_pow_unit[of "\<bar>sin t\<bar>" n3] assms by auto
  have n1: "(if \<bar>n1\<bar> < 0.001 then 0.001 else n1) = n1"
    using assms by auto
  have "\<bar>- 1 / n1\<bar> = 1 / \<bar>n1\<bar>" by simp
  also have "\<dots> \<le> 1 / (13 / 1000)"
    using assms by (intro divide_left_mono) auto
  also have "\<dots> \<le> 77" by simp
  finally have e: "\<bar>- 1 / n1\<bar> \<le> 77" .
  show ?thesis
  proof (cases "term1 + term2 < 0.0001")
    case True
    then show ?thesis
      using assms t1 t2 unfolding gielis_r_def Let_def n1 t_def[symmetric] by simp
  next
    case False
    then have "1 / 10 ^ 4 \<le> term1 + term2" "term1 + term2 \<le> 2"
      using t1 t2 by auto
    from float_pow_denom[OF this e] obtain p where
      p: "float_pow (term1 + term2) (- 1 / n1) = Inr p" ..
    show ?thesis
      using assms t1 t2 p unfolding gielis_r_def Let_def n1 t_def[symmetric] by simp
  qed
qed

text \<open>
  Claim C1. The claim is what the two guards and the clamp of \<open>gielis_r\<close> aim at
  (\<open>Avoid division by zero\<close>, \<open>Avoid zero again\<close>, \<open>Clamp to prevent explosion\<close>), and
  the code misses it on finite inputs. At angle 0 the sine is exactly 0, and \<open>0.0 ** n3\<close>
  with a negative \<open>n3\<close> raises ZeroDivisionError, before the guard on the sum is reached.
  For \<open>n1 = 0\<close> the first guard substitutes 0.001, the exponent is \<open>-1000\<close>, and
  \<open>0.25 ** -1000.0\<close> raises OverflowError, before the clamp is applied. Where the function
  returns, the radius is in [0.1, 5.0] (\<open>gielis_r_in_range\<close>), a sum below 0.0001 gives
  the neutral radius 1.0 (\<open>gielis_r_neutral\<close>), and it returns on the parameters of every
  gene of a genome (\<open>gielis_r_returns\<close>).
\<close>

theorem gielis_r_raises:
  "gielis_r 0 1 1 1 (- 1) = Inl ZeroDivisionError \<and> gielis_r pi 1 0 6 6 = Inl OverflowError"
  using gielis_r_zero_division gielis_r_overflow by simp

section \<open>Ranges of the fields of a genome\<close>

lemma set_update_subset: "set (AList.update k v al) \<subseteq> insert (k, v) (set al)"
  by (induction al) auto

lemma gene_ok_update:
  "gene_ok gene \<Longrightarrow> gene_field_ok k v \<Longrightarrow> gene_ok (AList.update k v gene)"
  using set_update_subset[of k v gene] by (auto simp: gene_ok_def)

lemma dna_ok_update:
  "dna_ok genome \<Longrightarrow> value_ok k v \<Longrightarrow> dna_ok (AList.update k v genome)"
  using set_update_subset[of k v genome] by (auto simp: dna_ok_def)

lemma dna_ok_lookup: "dna_ok genome \<Longrightarrow> map_of genome k = Some v \<Longrightarrow> value_ok k v"
  by (auto simp: dna_ok_def dest: map_of_SomeD)

lemma value_ok_GeneV: "value_ok key (GeneV gene) = gene_ok gene"
  by (simp add: value_ok_def)

lemma value_ok_levels:
  "value_ok ''fractal_levels'' (IntV n) = (MIN_FRACTAL_LEVELS \<le> n \<and> n \<le> MAX_FRACTAL_LEVELS)"
  by (simp add: value_ok_def)

lemma value_ok_children:
  "value_ok ''fractal_children'' (IntV n) = (MIN_CHILDREN \<le> n \<and> n \<le> MAX_CHILDREN)"
  by (simp add: value_ok_def)

lemma value_ok_scale_speed:
  "value_ok ''scale_factor'' (FloatV x) = (1 / 10 \<le> x)"
  "value_ok ''speed'' (FloatV x) = (1 / 10 \<le> x)"
  by (simp_all add: value_ok_def)

lemma value_ok_discrete: "value_ok key v \<Longrightarrow> discrete_ok key v"
  by (cases v) (auto simp: discrete_ok_def value_ok_def split: if_splits)

lemma dna_ok_discrete: "dna_ok genome \<Longrightarrow> dna_discrete_ok genome"
  by (auto simp: dna_ok_def dna_discrete_ok_def intro: value_ok_discrete)

lemma discrete_ok_GeneV: "discrete_ok key (GeneV gene) = gene_ok gene"
  by (simp add: discrete_ok_def value_ok_def)

lemma discrete_ok_IntV: "discrete_ok key (IntV n) = value_ok key (IntV n)"
  by (simp add: discrete_ok_def)

lemma discrete_ok_FloatV:
  "discrete_ok key (FloatV x) = (key \<noteq> ''fractal_levels'' \<and> key \<noteq> ''fractal_children'')"
  by (simp add: discrete_ok_def)

lemma dna_discrete_ok_update:
  "dna_discrete_ok genome \<Longrightarrow> discrete_ok k v \<Longrightarrow> dna_discrete_ok (AList.update k v genome)"
  using set_update_subset[of k v genome] by (auto simp: dna_discrete_ok_def)

lemma dna_discrete_ok_lookup:
  "dna_discrete_ok genome \<Longrightarrow> map_of genome k = Some v \<Longrightarrow> discrete_ok k v"
  by (auto simp: dna_discrete_ok_def dest: map_of_SomeD)

lemma random_gielis_gene_ok:
  assumes "rng_ok g" "random_gielis_gene g = (gene, g')"
  shows "gene_ok gene \<and> rng_ok g'"
proof -
  obtain m1 g1 where a1: "random_randint 3 14 g = (m1, g1)" by force
  obtain m2 g2 where a2: "random_randint 2 12 g1 = (m2, g2)" by force
  obtain n1 g3 where a3: "random_uniform 0.08 0.9 g2 = (n1, g3)" by force
  obtain n2 g4 where a4: "random_uniform 0.5 3.5 g3 = (n2, g4)" by force
  obtain n3 g5 where a5: "random_uniform 0.5 3.5 g4 = (n3, g5)" by force
  obtain n1b g6 where a6: "random_uniform 0.1 0.95 g5 = (n1b, g6)" by force
  obtain n2b g7 where a7: "random_uniform 0.4 3.2 g6 = (n2b, g7)" by force
  obtain n3b g8 where a8: "random_uniform 0.4 3.2 g7 = (n3b, g8)" by force
  have b1: "3 \<le> m1 \<and> m1 \<le> 14 \<and> rng_ok g1" using random_randint_range[OF assms(1) _ a1] by simp
  then have b2: "2 \<le> m2 \<and> m2 \<le> 12 \<and> rng_ok g2" using random_randint_range[OF _ _ a2] by simp
  then have b3: "0.08 \<le> n1 \<and> n1 \<le> 0.9 \<and> rng_ok g3" using random_uniform_range[OF _ _ a3] by simp
  then have b4: "0.5 \<le> n2 \<and> n2 \<le> 3.5 \<and> rng_ok g4" using random_uniform_range[OF _ _ a4] by simp
  then have b5: "0.5 \<le> n3 \<and> n3 \<le> 3.5 \<and> rng_ok g5" using random_uniform_range[OF _ _ a5] by simp
  then have b6: "0.1 \<le> n1b \<and> n1b \<le> 0.95 \<and> rng_ok g6" using random_uniform_range[OF _ _ a6] by simp
  then have b7: "0.4 \<le> n2b \<and> n2b \<le> 3.2 \<and> rng_ok g7" using random_uniform_range[OF _ _ a7] by simp
  then have b8: "0.4 \<le> n3b \<and> n3b \<le> 3.2 \<and> rng_ok g8" using random_uniform_range[OF _ _ a8] by simp
  have e: "gene = [(''m1'', of_int m1), (''m2'', of_int m2), (''n1'', n1), (''n2'', n2), (''n3'', n3),
           (''n1b'', n1b), (''n2b'', n2b), (''n3b'', n3b)]" "g' = g8"
    using assms(2) a1 a2 a3 a4 a5 a6 a7 a8 by (simp_all add: random_gielis_gene_def)
  have "gene_ok gene"
    unfolding e gene_ok_def gene_field_ok_def using b1 b2 b3 b4 b5 b6 b7 b8 by simp
  with b8 e show ?thesis by simp
qed

lemma random_genes_ok:
  assumes "rng_ok g" "dna_ok genome" "random_genes genes genome g = (genome', g')"
  shows "dna_ok genome' \<and> rng_ok g'"
  using assms
proof (induction genes arbitrary: genome g)
  case Nil
  then show ?case by simp
next
  case (Cons gene genes)
  obtain params g1 where p: "random_gielis_gene g = (params, g1)" by force
  from random_gielis_gene_ok[OF Cons.prems(1) p] have ok: "gene_ok params" "rng_ok g1" by auto
  from Cons.prems(3) p have
    "random_genes genes (AList.update gene (GeneV params) genome) g1 = (genome', g')" by simp
  from Cons.IH[OF ok(2) _ this] Cons.prems(2) ok(1) show ?case
    by (simp add: dna_ok_update value_ok_GeneV)
qed

lemma random_dna_ok:
  assumes "rng_ok g" "random_dna g = (genome, g')"
  shows "dna_ok genome \<and> rng_ok g'"
proof -
  obtain d1 g1 where a1: "random_genes GIELIS_GENES [] g = (d1, g1)" by force
  obtain levels g2 where a2: "random_randint MIN_FRACTAL_LEVELS MAX_FRACTAL_LEVELS g1 = (levels, g2)" by force
  obtain children g3 where a3: "random_randint MIN_CHILDREN MAX_CHILDREN g2 = (children, g3)" by force
  obtain scale g4 where a4: "random_uniform 0.45 0.70 g3 = (scale, g4)" by force
  obtain speed g5 where a5: "random_uniform 0.2 0.5 g4 = (speed, g5)" by force
  have b1: "dna_ok d1 \<and> rng_ok g1"
    using random_genes_ok[OF assms(1) _ a1] by (simp add: dna_ok_def)
  then have b2: "MIN_FRACTAL_LEVELS \<le> levels \<and> levels \<le> MAX_FRACTAL_LEVELS \<and> rng_ok g2"
    using random_randint_range[OF _ _ a2] by (simp add: MIN_FRACTAL_LEVELS_def MAX_FRACTAL_LEVELS_def)
  then have b3: "MIN_CHILDREN \<le> children \<and> children \<le> MAX_CHILDREN \<and> rng_ok g3"
    using random_randint_range[OF _ _ a3] by (simp add: MIN_CHILDREN_def MAX_CHILDREN_def)
  then have b4: "0.45 \<le> scale \<and> scale \<le> 0.70 \<and> rng_ok g4"
    using random_uniform_range[OF _ _ a4] by simp
  then have b5: "0.2 \<le> speed \<and> speed \<le> 0.5 \<and> rng_ok g5"
    using random_uniform_range[OF _ _ a5] by simp
  have e: "genome = AList.update ''speed'' (FloatV speed) (AList.update ''scale_factor'' (FloatV scale)
      (AList.update ''fractal_children'' (IntV children) (AList.update ''fractal_levels'' (IntV levels) d1)))"
      "g' = g5"
    using assms(2) a1 a2 a3 a4 a5 by (simp_all add: random_dna_def)
  have "dna_ok genome" unfolding e
    using b1 b2 b3 b4 b5
    by (intro dna_ok_update) (simp_all add: value_ok_levels value_ok_children value_ok_scale_speed)
  with b5 e show ?thesis by simp
qed


lemma combine_keys_discrete:
  assumes "combine_keys keys dna1 dna2 c g = Inr (child, g')"
    "dna_discrete_ok dna1" "dna_discrete_ok dna2" "dna_discrete_ok c" "rng_ok g"
  shows "dna_discrete_ok child \<and> rng_ok g'"
  using assms
proof (induction keys arbitrary: c g)
  case Nil
  then show ?case by simp
next
  case (Cons key keys)
  note ih = Cons.IH[OF _ Cons.prems(2,3)]
  show ?case
  proof (cases "map_of dna1 key")
    case None
    with Cons.prems(1) show ?thesis by simp
  next
    case (Some v1)
    with Cons.prems(2) have ok1: "discrete_ok key v1" by (rule dna_discrete_ok_lookup)
    show ?thesis
    proof (cases v1)
      case (GeneV gene1)
      obtain u g1 where u: "random_random g = (u, g1)" by force
      with Cons.prems(5) have g1: "rng_ok g1" using random_random_ok by blast
      show ?thesis
      proof (cases "u < 0.5")
        case True
        with Cons.prems(1) Some GeneV u have
          "combine_keys keys dna1 dna2 (AList.update key (GeneV gene1) c) g1 = Inr (child, g')"
          by simp
        from ih[OF this _ g1] Cons.prems(4) ok1 GeneV show ?thesis
          by (simp add: dna_discrete_ok_update)
      next
        case False
        with Cons.prems(1) Some GeneV u obtain gene2 where
          d2: "map_of dna2 key = Some (GeneV gene2)" and
          st: "combine_keys keys dna1 dna2 (AList.update key (GeneV gene2) c) g1 = Inr (child, g')"
          by (auto split: option.splits dna_value.splits)
        from dna_discrete_ok_lookup[OF Cons.prems(3) d2] have "discrete_ok key (GeneV gene2)" .
        with ih[OF st _ g1] Cons.prems(4) show ?thesis
          by (simp add: dna_discrete_ok_update)
      qed
    next
      case (IntV n1)
      have "map_of dna2 key \<noteq> None"
      proof
        assume "map_of dna2 key = None"
        with Cons.prems(1) Some IntV show False by simp
      qed
      then obtain v2 where d2: "map_of dna2 key = Some v2" by blast
      obtain v g1 where ch: "random_choice [IntV n1, v2] g = (v, g1)" by force
      from random_choice_mem[OF Cons.prems(5) _ ch] have v: "v = IntV n1 \<or> v = v2" "rng_ok g1"
        by auto
      from dna_discrete_ok_lookup[OF Cons.prems(3) d2] ok1 IntV v(1) have okv: "discrete_ok key v"
        by blast
      from Cons.prems(1) Some IntV d2 ch have
        "combine_keys keys dna1 dna2 (AList.update key v c) g1 = Inr (child, g')" by simp
      from ih[OF this _ v(2)] Cons.prems(4) okv show ?thesis
        by (simp add: dna_discrete_ok_update)
    next
      case (FloatV x1)
      obtain mix g1 where mx: "random_uniform 0.3 0.7 g = (mix, g1)" by force
      from random_uniform_range[OF Cons.prems(5) _ mx] have m: "rng_ok g1" by auto
      from ok1 FloatV have kf: "discrete_ok key (FloatV y)" for y
        by (simp add: discrete_ok_FloatV)
      from Cons.prems(1) Some FloatV mx obtain y where
        st: "combine_keys keys dna1 dna2 (AList.update key (FloatV y) c) g1 = Inr (child, g')"
        by (auto split: option.splits dna_value.splits)
      from ih[OF st _ m] Cons.prems(4) kf show ?thesis
        by (simp add: dna_discrete_ok_update)
    qed
  qed
qed

lemma combine_dna_discrete:
  assumes "combine_dna dna1 dna2 g = Inr (child, g')" "dna_discrete_ok dna1" "dna_discrete_ok dna2"
    "rng_ok g"
  shows "dna_discrete_ok child \<and> rng_ok g'"
  using combine_keys_discrete[of "map fst dna1" dna1 dna2 "[]" g child g'] assms
  by (simp add: combine_dna_def dna_discrete_ok_def)


lemma combine_keys_frame:
  assumes "combine_keys keys dna1 dna2 c g = Inr (child, g')" "k \<notin> set keys"
  shows "map_of child k = map_of c k"
  using assms
proof (induction keys arbitrary: c g)
  case Nil
  then show ?case by simp
next
  case (Cons key keys)
  from Cons.prems(2) have kk: "k \<noteq> key" "k \<notin> set keys" by auto
  from Cons.prems(1) obtain c1 g1 where
    step: "combine_keys keys dna1 dna2 c1 g1 = Inr (child, g')" and
    c1: "\<exists>v. c1 = AList.update key v c"
    by (auto simp: Let_def split: option.splits dna_value.splits prod.splits if_splits)
  from Cons.IH[OF step kk(2)] c1 kk(1) show ?case
    by (auto simp: update_conv')
qed

lemma combine_keys_gene:
  assumes "combine_keys keys dna1 dna2 c g = Inr (child, g')" "distinct keys"
    "i < length keys" "map_of dna1 (keys ! i) = Some (GeneV gene1)"
  shows "(g i < 1 / 2 \<longrightarrow> map_of child (keys ! i) = Some (GeneV gene1)) \<and>
         (\<not> g i < 1 / 2 \<longrightarrow>
            (\<exists>gene2. map_of dna2 (keys ! i) = Some (GeneV gene2) \<and>
                     map_of child (keys ! i) = Some (GeneV gene2)))"
  using assms
proof (induction keys arbitrary: c g i)
  case Nil
  then show ?case by simp
next
  case (Cons key keys)
  show ?case
  proof (cases i)
    case 0
    with Cons.prems(4) have d1: "map_of dna1 key = Some (GeneV gene1)" by simp
    from Cons.prems(2) have nk: "key \<notin> set keys" by simp
    show ?thesis
    proof (cases "g 0 < 1 / 2")
      case True
      with Cons.prems(1) d1 have
        "combine_keys keys dna1 dna2 (AList.update key (GeneV gene1) c) (\<lambda>i. g (Suc i)) = Inr (child, g')"
        by (simp add: random_random_def)
      from combine_keys_frame[OF this nk] True 0 show ?thesis
        by (simp add: update_conv')
    next
      case False
      with Cons.prems(1) d1 obtain gene2 where
        d2: "map_of dna2 key = Some (GeneV gene2)" and
        "combine_keys keys dna1 dna2 (AList.update key (GeneV gene2) c) (\<lambda>i. g (Suc i)) = Inr (child, g')"
        by (auto simp: random_random_def split: option.splits dna_value.splits)
      from combine_keys_frame[OF this(2) nk] False 0 d2 show ?thesis
        by (simp add: update_conv')
    qed
  next
    case (Suc j)
    from Cons.prems(1) obtain c1 where
      step: "combine_keys keys dna1 dna2 c1 (\<lambda>i. g (Suc i)) = Inr (child, g')"
      by (auto simp: Let_def random_random_def random_uniform_def random_choice_def
          split: option.splits dna_value.splits prod.splits if_splits)
    from Cons.prems(2,3,4) Suc have
      "distinct keys" "j < length keys" "map_of dna1 (keys ! j) = Some (GeneV gene1)"
      by auto
    from Cons.IH[OF step this] Suc show ?thesis by simp
  qed
qed



lemma clamp_sym: "(3::real) \<le> max 3 (min 12 x) \<and> max 3 (min 12 x) \<le> 12"
  by simp

lemma clamp_curv: "(1 / 10 :: real) \<le> max (1 / 10) (min 3 x) \<and> max (1 / 10) (min 3 x) \<le> 3"
  by simp

lemma gene_field_ok_sym:
  assumes "k \<in> set [''m1'', ''m2'']" "3 \<le> v" "v \<le> 12"
  shows "gene_field_ok k v"
  using assms by (auto simp: gene_field_ok_def)

lemma gene_field_ok_curv:
  assumes "k \<notin> set [''m1'', ''m2'']" "1 / 10 \<le> v" "v \<le> 3"
  shows "gene_field_ok k v"
  using assms by (auto simp: gene_field_ok_def)

lemma mutate_gene_ok:
  assumes "gene_ok new_gene"
  shows "gene_ok (fst (mutate_gene items new_gene g))"
  using assms
proof (induction items arbitrary: new_gene g)
  case Nil
  then show ?case by simp
next
  case (Cons item items)
  obtain gkey gval where item: "item = (gkey, gval)" by force
  obtain u g1 where u: "random_random g = (u, g1)" by force
  show ?case
  proof (cases "u < MUTATION_RATE")
    case False
    with item u Cons show ?thesis by simp
  next
    case True
    show ?thesis
    proof (cases "gkey \<in> set [''m1'', ''m2'']")
      case sym: True
      obtain k g2 where k: "random_randint (- 2) 2 g1 = (k, g2)" by force
      have "gene_field_ok gkey (max 3 (min 12 (gval + of_int k)))"
        using sym clamp_sym by (intro gene_field_ok_sym) auto
      with Cons.prems have "gene_ok (AList.update gkey (max 3 (min 12 (gval + of_int k))) new_gene)"
        by (intro gene_ok_update)
      from Cons.IH[OF this] item u True sym k show ?thesis by simp
    next
      case curv: False
      obtain r g2 where r: "random_uniform (- 1) 1 g1 = (r, g2)" by force
      define v where "v = max (1 / 10) (min 3 (gval + gval * MUTATION_STRENGTH * r))"
      have "gene_field_ok gkey v"
        using curv clamp_curv unfolding v_def by (intro gene_field_ok_curv) auto
      with Cons.prems have "gene_ok (AList.update gkey v new_gene)"
        by (intro gene_ok_update)
      from Cons.IH[OF this] item u True curv r show ?thesis by (simp add: v_def)
    qed
  qed
qed

lemma mutate_gene_fields:
  "field_mutated f (map_of new_gene f) (map_of (fst (mutate_gene items new_gene g)) f)"
proof (induction items arbitrary: new_gene g)
  case Nil
  then show ?case by (simp add: field_mutated_def)
next
  case (Cons item items)
  obtain gkey gval where item: "item = (gkey, gval)" by force
  obtain u g1 where u: "random_random g = (u, g1)" by force
  have step: "field_mutated f (map_of new_gene f) (map_of (fst (mutate_gene items (AList.update gkey v new_gene) g2)) f)"
    if "if gkey \<in> set [''m1'', ''m2''] then 3 \<le> v \<and> v \<le> 12 else 1 / 10 \<le> v \<and> v \<le> 3" for v g2
  proof (cases "f = gkey")
    case True
    from Cons.IH[of "AList.update gkey v new_gene" g2] True that show ?thesis
      by (auto simp: field_mutated_def update_conv' split: option.splits if_splits)
  next
    case False
    from Cons.IH[of "AList.update gkey v new_gene" g2] False show ?thesis
      by (simp add: update_conv')
  qed
  show ?case
  proof (cases "u < MUTATION_RATE")
    case False
    with item u Cons.IH[of new_gene g1] show ?thesis by simp
  next
    case True
    show ?thesis
    proof (cases "gkey \<in> set [''m1'', ''m2'']")
      case sym: True
      obtain k g2 where k: "random_randint (- 2) 2 g1 = (k, g2)" by force
      from step[of "max 3 (min 12 (gval + of_int k))" g2] sym clamp_sym
      have "field_mutated f (map_of new_gene f)
          (map_of (fst (mutate_gene items (AList.update gkey (max 3 (min 12 (gval + of_int k))) new_gene) g2)) f)"
        by simp
      with item u True sym k show ?thesis by simp
    next
      case curv: False
      obtain r g2 where r: "random_uniform (- 1) 1 g1 = (r, g2)" by force
      define v where "v = max (1 / 10) (min 3 (gval + gval * MUTATION_STRENGTH * r))"
      from step[of v g2] curv clamp_curv
      have "field_mutated f (map_of new_gene f)
          (map_of (fst (mutate_gene items (AList.update gkey v new_gene) g2)) f)"
        unfolding v_def by simp
      with item u True curv r show ?thesis by (simp add: v_def)
    qed
  qed
qed



lemma mutate_gene_rng:
  assumes "rng_ok g"
  shows "rng_ok (snd (mutate_gene items new_gene g))"
  using assms
proof (induction items arbitrary: new_gene g)
  case Nil
  then show ?case by simp
next
  case (Cons item items)
  obtain gkey gval where item: "item = (gkey, gval)" by force
  obtain u g1 where u: "random_random g = (u, g1)" by force
  with Cons.prems have g1: "rng_ok g1" using random_random_ok by blast
  obtain k g2 where k: "random_randint (- 2) 2 g1 = (k, g2)" by force
  with g1 have g2: "rng_ok g2" using random_randint_range[of g1 "- 2" 2 k g2] by simp
  obtain r g3 where r: "random_uniform (- 1) 1 g1 = (r, g3)" by force
  with g1 have g3: "rng_ok g3" using random_uniform_range[of g1 "- 1" 1 r g3] by simp
  show ?case
    using item u k r Cons.IH[OF g1] Cons.IH[OF g2] Cons.IH[OF g3] by (simp add: Let_def)
qed

lemma clamp_value_ok_levels:
  assumes "value_ok ''fractal_levels'' value"
  shows "value_ok ''fractal_levels'' (clamp_value MIN_FRACTAL_LEVELS MAX_FRACTAL_LEVELS (add_step value k))"
  using assms
  by (cases "value") (auto simp: value_ok_def MIN_FRACTAL_LEVELS_def MAX_FRACTAL_LEVELS_def)

lemma clamp_value_ok_children:
  assumes "value_ok ''fractal_children'' value"
  shows "value_ok ''fractal_children'' (clamp_value MIN_CHILDREN MAX_CHILDREN (add_step value k))"
  using assms
  by (cases "value") (auto simp: value_ok_def MIN_CHILDREN_def MAX_CHILDREN_def)

lemma value_ok_float_floor:
  assumes "value_ok key (FloatV x)"
  shows "value_ok key (FloatV (max (1 / 10) y))"
  using assms by (auto simp: value_ok_def split: if_splits)



lemma mutate_items_stepI:
  assumes "mutate_items ((key, value) # items) mutated g =
             mutate_items items (AList.update key v mutated) g'"
    and "mutate_step_ok key value g v g'"
  shows "\<exists>v g'. mutate_items ((key, value) # items) mutated g =
            mutate_items items (AList.update key v mutated) g' \<and>
          mutate_step_ok key value g v g'"
  using assms by blast

lemma mutate_items_step:
  "\<exists>v g'. mutate_items ((key, value) # items) mutated g =
            mutate_items items (AList.update key v mutated) g' \<and>
          mutate_step_ok key value g v g'"
proof (cases "value")
  case (GeneV gene)
  obtain new_gene g' where n: "mutate_gene gene gene g = (new_gene, g')" by force
  have "new_gene = fst (mutate_gene gene gene g)" "g' = snd (mutate_gene gene gene g)"
    using n by simp_all
  then have ok: "mutate_step_ok key value g (GeneV new_gene) g'"
    using GeneV mutate_gene_ok[of gene gene g] mutate_gene_rng[of g gene gene]
    by (auto simp: mutate_step_ok_def value_ok_GeneV)
  have "mutate_items ((key, value) # items) mutated g =
      mutate_items items (AList.update key (GeneV new_gene) mutated) g'"
    using GeneV n by (simp del: clamp_value.simps add_step.simps)
  from this ok show ?thesis by (rule mutate_items_stepI)
next
  case (IntV n)
  obtain u g1 where u: "random_random g = (u, g1)" by force
  have g1: "rng_ok g \<Longrightarrow> rng_ok g1" using u random_random_ok by blast
  obtain k g2 where k: "random_choice [- 1, 0, 1 :: int] g1 = (k, g2)" by force
  have g2: "rng_ok g \<Longrightarrow> rng_ok g2" using g1 k random_choice_mem[of g1 "[- 1, 0, 1]" k g2] by simp
  consider (lev) "key = ''fractal_levels''" | (chi) "key = ''fractal_children''"
    | (oth) "key \<noteq> ''fractal_levels''" "key \<noteq> ''fractal_children''" by blast
  then show ?thesis
  proof cases
    case lev
    show ?thesis
    proof (cases "u < MUTATION_RATE")
      case True
      have ok: "mutate_step_ok key value g (clamp_value MIN_FRACTAL_LEVELS MAX_FRACTAL_LEVELS (add_step value k)) g2"
        using lev IntV g2 clamp_value_ok_levels[of "value" k] by (simp add: mutate_step_ok_def)
      have "mutate_items ((key, value) # items) mutated g =
          mutate_items items (AList.update key (clamp_value MIN_FRACTAL_LEVELS MAX_FRACTAL_LEVELS (add_step value k)) mutated) g2"
        using lev IntV u k True by (simp del: clamp_value.simps add_step.simps)
      from this ok show ?thesis by (rule mutate_items_stepI)
    next
      case False
      have ok: "mutate_step_ok key value g value g1"
        using IntV g1 by (simp add: mutate_step_ok_def)
      have "mutate_items ((key, value) # items) mutated g =
          mutate_items items (AList.update key value mutated) g1"
        using lev IntV u False by (simp del: clamp_value.simps add_step.simps)
      from this ok show ?thesis by (rule mutate_items_stepI)
    qed
  next
    case chi
    show ?thesis
    proof (cases "u < MUTATION_RATE")
      case True
      have ok: "mutate_step_ok key value g (clamp_value MIN_CHILDREN MAX_CHILDREN (add_step value k)) g2"
        using chi IntV g2 clamp_value_ok_children[of "value" k] by (simp add: mutate_step_ok_def)
      have "mutate_items ((key, value) # items) mutated g =
          mutate_items items (AList.update key (clamp_value MIN_CHILDREN MAX_CHILDREN (add_step value k)) mutated) g2"
        using chi IntV u k True by (simp del: clamp_value.simps add_step.simps)
      from this ok show ?thesis by (rule mutate_items_stepI)
    next
      case False
      have ok: "mutate_step_ok key value g value g1"
        using IntV g1 by (simp add: mutate_step_ok_def)
      have "mutate_items ((key, value) # items) mutated g =
          mutate_items items (AList.update key value mutated) g1"
        using chi IntV u False by (simp del: clamp_value.simps add_step.simps)
      from this ok show ?thesis by (rule mutate_items_stepI)
    qed
  next
    case oth
    have ok: "mutate_step_ok key value g value g"
      using IntV by (simp add: mutate_step_ok_def)
    have "mutate_items ((key, value) # items) mutated g =
        mutate_items items (AList.update key value mutated) g"
      using oth IntV by (simp del: clamp_value.simps add_step.simps)
    from this ok show ?thesis by (rule mutate_items_stepI)
  qed
next
  case (FloatV x)
  obtain u g1 where u: "random_random g = (u, g1)" by force
  have g1: "rng_ok g \<Longrightarrow> rng_ok g1" using u random_random_ok by blast
  obtain k g2 where k: "random_choice [- 1, 0, 1 :: int] g1 = (k, g2)" by force
  have g2: "rng_ok g \<Longrightarrow> rng_ok g2" using g1 k random_choice_mem[of g1 "[- 1, 0, 1]" k g2] by simp
  obtain r g3 where r: "random_uniform (- 1) 1 g1 = (r, g3)" by force
  have g3: "rng_ok g \<Longrightarrow> rng_ok g3" using g1 r random_uniform_range[of g1 "- 1" 1 r g3] by simp
  have same: "mutate_step_ok key value g value g1"
    using FloatV g1 by (simp add: mutate_step_ok_def)
  consider (lev) "key = ''fractal_levels''" | (chi) "key = ''fractal_children''"
    | (oth) "key \<noteq> ''fractal_levels''" "key \<noteq> ''fractal_children''" by blast
  then show ?thesis
  proof cases
    case lev
    show ?thesis
    proof (cases "u < MUTATION_RATE")
      case True
      have ok: "mutate_step_ok key value g (clamp_value MIN_FRACTAL_LEVELS MAX_FRACTAL_LEVELS (add_step value k)) g2"
        using lev FloatV g2 clamp_value_ok_levels[of "value" k] by (simp add: mutate_step_ok_def)
      have "mutate_items ((key, value) # items) mutated g =
          mutate_items items (AList.update key (clamp_value MIN_FRACTAL_LEVELS MAX_FRACTAL_LEVELS (add_step value k)) mutated) g2"
        using lev FloatV u k True by (simp del: clamp_value.simps add_step.simps)
      from this ok show ?thesis by (rule mutate_items_stepI)
    next
      case False
      have "mutate_items ((key, value) # items) mutated g =
    mutate_items items (AList.update key value mutated) g1"
        using lev FloatV u False by simp
      from this same show ?thesis by (rule mutate_items_stepI)
    qed
  next
    case chi
    show ?thesis
    proof (cases "u < MUTATION_RATE")
      case True
      have ok: "mutate_step_ok key value g (clamp_value MIN_CHILDREN MAX_CHILDREN (add_step value k)) g2"
        using chi FloatV g2 clamp_value_ok_children[of "value" k] by (simp add: mutate_step_ok_def)
      have "mutate_items ((key, value) # items) mutated g =
          mutate_items items (AList.update key (clamp_value MIN_CHILDREN MAX_CHILDREN (add_step value k)) mutated) g2"
        using chi FloatV u k True by (simp del: clamp_value.simps add_step.simps)
      from this ok show ?thesis by (rule mutate_items_stepI)
    next
      case False
      have "mutate_items ((key, value) # items) mutated g =
    mutate_items items (AList.update key value mutated) g1"
        using chi FloatV u False by simp
      from this same show ?thesis by (rule mutate_items_stepI)
    qed
  next
    case oth
    show ?thesis
    proof (cases "u < MUTATION_RATE")
      case True
      have ok: "mutate_step_ok key value g (FloatV (max (1 / 10) (x + x * MUTATION_STRENGTH * r))) g3"
        using FloatV g3 value_ok_float_floor[of key x] by (simp add: mutate_step_ok_def)
      have "mutate_items ((key, value) # items) mutated g =
          mutate_items items (AList.update key (FloatV (max (1 / 10) (x + x * MUTATION_STRENGTH * r))) mutated) g3"
        using oth FloatV u r True by (simp del: clamp_value.simps add_step.simps)
      from this ok show ?thesis by (rule mutate_items_stepI)
    next
      case False
      have "mutate_items ((key, value) # items) mutated g =
    mutate_items items (AList.update key value mutated) g1"
        using oth FloatV u False by simp
      from this same show ?thesis by (rule mutate_items_stepI)
    qed
  qed
qed



lemma mutate_items_ok:
  assumes "dna_ok items" "dna_ok mutated"
  shows "dna_ok (fst (mutate_items items mutated g))"
  using assms
proof (induction items arbitrary: mutated g)
  case Nil
  then show ?case by simp
next
  case (Cons item items)
  obtain key "value" where item: "item = (key, value)" by force
  from Cons.prems(1) item have ok: "value_ok key value" "dna_ok items"
    by (simp_all add: dna_ok_def)
  from mutate_items_step[of key "value" items mutated g] obtain v g' where
    st: "mutate_items ((key, value) # items) mutated g = mutate_items items (AList.update key v mutated) g'"
    and sk: "mutate_step_ok key value g v g'" by blast
  from sk ok(1) have "value_ok key v" by (simp add: mutate_step_ok_def)
  with Cons.prems(2) have "dna_ok (AList.update key v mutated)" by (intro dna_ok_update)
  from Cons.IH[OF ok(2) this] st item show ?case by simp
qed


lemma mutate_items_frame:
  assumes "key \<notin> fst ` set items"
  shows "map_of (fst (mutate_items items mutated g)) key = map_of mutated key"
  using assms
proof (induction items arbitrary: mutated g)
  case Nil
  then show ?case by simp
next
  case (Cons item items)
  obtain k "value" where item: "item = (k, value)" by force
  from mutate_items_step[of k "value" items mutated g] obtain v g' where
    st: "mutate_items ((k, value) # items) mutated g = mutate_items items (AList.update k v mutated) g'"
    by blast
  from Cons.prems item have "key \<noteq> k" "key \<notin> fst ` set items" by auto
  from Cons.IH[OF this(2)] this(1) st item show ?case by (simp add: update_conv')
qed

lemma mutate_items_gene:
  assumes "distinct (map fst items)" "(key, GeneV gene) \<in> set items"
  shows "\<exists>g1. map_of (fst (mutate_items items mutated g)) key =
                 Some (GeneV (fst (mutate_gene gene gene g1)))"
  using assms
proof (induction items arbitrary: mutated g)
  case Nil
  then show ?case by simp
next
  case (Cons item items)
  obtain k "value" where item: "item = (k, value)" by force
  from mutate_items_step[of k "value" items mutated g] obtain v g' where
    st: "mutate_items ((k, value) # items) mutated g = mutate_items items (AList.update k v mutated) g'"
    and sk: "mutate_step_ok k value g v g'" by blast
  show ?case
  proof (cases "(key, GeneV gene) \<in> set items")
    case True
    from Cons.prems(1) have "distinct (map fst items)" by simp
    from Cons.IH[OF this True] st item show ?thesis by simp
  next
    case False
    with Cons.prems(2) item have e: "k = key" "value = GeneV gene" by auto
    with sk obtain g1 where v: "v = GeneV (fst (mutate_gene gene gene g1))"
      by (auto simp: mutate_step_ok_def)
    from Cons.prems(1) item e have "key \<notin> fst ` set items" by auto
    from mutate_items_frame[OF this] st item e v show ?thesis
      by (auto simp: update_conv')
  qed
qed

lemma mutate_dna_ok:
  assumes "dna_ok genome"
  shows "dna_ok (fst (mutate_dna genome g))"
  using mutate_items_ok[OF assms, of "[]" g] by (simp add: mutate_dna_def dna_ok_def)


lemma mutate_dna_fields:
  assumes "distinct (map fst genome)" "map_of genome key = Some (GeneV gene)"
  shows "field_mutated f (gene_field genome key f) (gene_field (fst (mutate_dna genome g)) key f)"
proof -
  from assms(2) have "(key, GeneV gene) \<in> set genome" by (rule map_of_SomeD)
  from mutate_items_gene[OF assms(1) this, of "[]" g] obtain g1 where
    "map_of (fst (mutate_dna genome g)) key = Some (GeneV (fst (mutate_gene gene gene g1)))"
    by (auto simp: mutate_dna_def)
  with assms(2) mutate_gene_fields[of f gene gene g1] show ?thesis
    by (simp add: gene_field_def)
qed


lemma mutate_items_step_discrete:
  "\<exists>v g'. mutate_items ((key, value) # items) mutated g =
            mutate_items items (AList.update key v mutated) g' \<and>
          (discrete_ok key value \<longrightarrow> discrete_ok key v)"
proof (cases "\<exists>x. value = FloatV x \<and> key \<noteq> ''fractal_levels'' \<and> key \<noteq> ''fractal_children''")
  case True
  then obtain x where x: "value = FloatV x" and
    oth: "key \<noteq> ''fractal_levels''" "key \<noteq> ''fractal_children''" by blast
  obtain u g1 where u: "random_random g = (u, g1)" by force
  obtain r g3 where r: "random_uniform (- 1) 1 g1 = (r, g3)" by force
  have kf: "discrete_ok key (FloatV y)" for y
    using oth by (simp add: discrete_ok_FloatV)
  show ?thesis
  proof (cases "u < MUTATION_RATE")
    case True
    have "mutate_items ((key, value) # items) mutated g =
        mutate_items items
          (AList.update key (FloatV (max (1 / 10) (x + x * MUTATION_STRENGTH * r))) mutated) g3"
      using oth x u r True by (simp del: clamp_value.simps add_step.simps)
    with kf show ?thesis by blast
  next
    case False
    have "mutate_items ((key, value) # items) mutated g =
        mutate_items items (AList.update key value mutated) g1"
      using oth x u False by simp
    then show ?thesis by blast
  qed
next
  case False
  from mutate_items_step[of key "value" items mutated g] obtain v g' where
    st: "mutate_items ((key, value) # items) mutated g =
           mutate_items items (AList.update key v mutated) g'"
    and sk: "mutate_step_ok key value g v g'" by blast
  have "discrete_ok key v" if d: "discrete_ok key value"
  proof (cases "value")
    case (GeneV gene)
    with d have "value_ok key value" by (simp add: discrete_ok_def)
    with sk have "value_ok key v" by (simp add: mutate_step_ok_def)
    then show ?thesis by (rule value_ok_discrete)
  next
    case (IntV n)
    with d have "value_ok key value" by (simp add: discrete_ok_def)
    with sk have "value_ok key v" by (simp add: mutate_step_ok_def)
    then show ?thesis by (rule value_ok_discrete)
  next
    case (FloatV x)
    with d False show ?thesis by (simp add: discrete_ok_FloatV)
  qed
  with st show ?thesis by blast
qed

lemma mutate_items_discrete:
  assumes "dna_discrete_ok items" "dna_discrete_ok mutated"
  shows "dna_discrete_ok (fst (mutate_items items mutated g))"
  using assms
proof (induction items arbitrary: mutated g)
  case Nil
  then show ?case by simp
next
  case (Cons item items)
  obtain key "value" where item: "item = (key, value)" by force
  from Cons.prems(1) item have ok: "discrete_ok key value" "dna_discrete_ok items"
    by (simp_all add: dna_discrete_ok_def)
  from mutate_items_step_discrete[of key "value" items mutated g] obtain v g' where
    st: "mutate_items ((key, value) # items) mutated g = mutate_items items (AList.update key v mutated) g'"
    and sk: "discrete_ok key value \<longrightarrow> discrete_ok key v" by blast
  from sk ok(1) have "discrete_ok key v" by simp
  with Cons.prems(2) have "dna_discrete_ok (AList.update key v mutated)"
    by (intro dna_discrete_ok_update)
  from Cons.IH[OF ok(2) this] st item show ?case by simp
qed

lemma mutate_dna_discrete:
  assumes "dna_discrete_ok genome"
  shows "dna_discrete_ok (fst (mutate_dna genome g))"
  using mutate_items_discrete[OF assms, of "[]" g] by (simp add: mutate_dna_def dna_discrete_ok_def)


section \<open>Properties of the organisms\<close>










lemma mate_with_Inr:
  assumes "mate_with c partner counter g = Inr (c', partner', child, counter', g')"
  shows "\<exists>d1 g1 g2 jx g3 jy g4.
           combine_dna (dna c) (dna partner) g = Inr (d1, g1) \<and>
           g2 = snd (mutate_dna d1 g1) \<and>
           random_uniform (- 1) 1 g2 = (jx, g3) \<and>
           random_uniform (- 1) 1 g3 = (jy, g4) \<and>
           c' = c\<lparr>energy := energy c - MATING_COST, mating_cooldown := 50,
                   children_count := children_count c + 1\<rparr> \<and>
           partner' = partner\<lparr>energy := energy partner - MATING_COST, mating_cooldown := 50,
                   children_count := children_count partner + 1\<rparr> \<and>
           child = (fst (new_creature (Some (fst (mutate_dna d1 g1)))
                      (Some ((fst (position c) + fst (position partner)) / 2 + jx,
                             (fst (snd (position c)) + fst (snd (position partner))) / 2 + jy, 1))
                      (Some [name c, name partner]) counter g4))
                   \<lparr>generation := max (generation c) (generation partner) + 1\<rparr>"
  using assms unfolding mate_with_def Let_def
  by (auto split: sum.splits prod.splits)


lemma new_creature_cooldown: "mating_cooldown (fst (new_creature d p ps counter g)) = 0"
  unfolding new_creature_def Let_def
  by (auto split: prod.splits option.splits)



lemma random_random_const: "random_random (rng_const u) = (u, rng_const u)"
  by (simp add: random_random_def rng_const_def)

lemma random_uniform_const: "random_uniform a b (rng_const u) = (a + (b - a) * u, rng_const u)"
  by (simp add: random_uniform_def random_random_const)

lemma random_randint_const:
  "random_randint a b (rng_const u) = (a + \<lfloor>u * of_int (b - a + 1)\<rfloor>, rng_const u)"
  by (simp add: random_randint_def random_random_const)

lemma random_choice_const:
  "random_choice xs (rng_const u) = (xs ! nat \<lfloor>u * of_nat (length xs)\<rfloor>, rng_const u)"
  by (simp add: random_choice_def random_random_const)


lemma name_letters_const: "snd (name_letters i k (rng_const u)) = rng_const u"
proof (induction k arbitrary: i)
  case 0
  show ?case by simp
next
  case (Suc k)
  obtain rest g2 where r: "name_letters (Suc i) k (rng_const u) = (rest, g2)" by force
  with Suc[of "Suc i"] have "g2 = rng_const u" by simp
  with r show ?case by (simp add: random_choice_const)
qed

lemma generate_name_const_rng: "snd (generate_name (rng_const u)) = rng_const u"
proof -
  obtain letters g2 where
    r: "name_letters 0 (nat (3 + \<lfloor>u * of_int (5 - 3 + 1)\<rfloor>)) (rng_const u) = (letters, g2)"
    by force
  with name_letters_const[of 0 "nat (3 + \<lfloor>u * of_int (5 - 3 + 1)\<rfloor>)" u]
  have "g2 = rng_const u" by simp
  with r show ?thesis by (simp add: generate_name_def random_randint_const)
qed

lemma generate_name_half_fst: "fst (generate_name (rng_const (1 / 2))) = ''NINI''"
  by code_simp

lemma generate_name_half: "generate_name (rng_const (1 / 2)) = (''NINI'', rng_const (1 / 2))"
  using generate_name_half_fst generate_name_const_rng[of "1 / 2"] by (metis prod.collapse)

lemma demo_mate_with:
  "mate_with demo_a demo_b 2 (rng_const (1 / 2)) =
     Inr (demo_a\<lparr>energy := 50, mating_cooldown := 50, children_count := 1\<rparr>,
          demo_b\<lparr>energy := 50, mating_cooldown := 50, children_count := 2\<rparr>,
          \<lparr>cid = 3, name = ''NINI'',
            dna = [(''lajfi_1'', GeneV [(''m1'', 7), (''n1'', 1 / 4)]), (''fractal_levels'', IntV 3),
                   (''fractal_children'', IntV 2), (''speed'', FloatV (7 / 20))],
            position = (1, 0, 1), energy = 40, age = 0, obj = None, generation = 3,
            parents = [''BOKA'', ''ZOMPA''], children_count = 0, meals_eaten = 0,
            mating_cooldown = 0\<rparr>,
          3, rng_const (1 / 2))"
  by (simp add: mate_with_def demo_a_def demo_b_def combine_dna_def mutate_dna_def
      new_creature_def generate_name_half random_random_const random_uniform_const
      random_randint_const random_choice_const MATING_COST_def MUTATION_RATE_def START_ENERGY_def)


text \<open>
  Claim C4, as the code has it. A mutation clamps a field only when it mutates it, which it
  does with probability 0.2 per field: a symmetry of 14 (or 2) that \<open>random_gielis_gene\<close>
  sampled stays as it is in a field the mutation did not touch. What holds: the output of
  \<open>random_dna\<close> and of \<open>mutate_dna\<close> keeps every field within \<open>dna_ok\<close>, the hull of the
  sampled interval and of the clamp, with the floor 0.1 of the scale factor and the speed;
  the output of \<open>combine_dna\<close> and of \<open>mutate_dna\<close> keeps every shape gene and every
  integer trait within these ranges (\<open>dna_discrete_ok\<close>: of a blended float trait no
  bound is stated); and every field of every shape gene is, after \<open>mutate_dna\<close>, either
  unchanged or within the clamp of its kind, [3, 12] for a symmetry and [0.1, 3.0] for a
  curvature.
\<close>

theorem genome_ranges_preserved:
  "(rng_ok g \<longrightarrow> dna_ok (fst (random_dna g))) \<and>
   (dna_discrete_ok dna1 \<and> dna_discrete_ok dna2 \<and> rng_ok g \<and>
    combine_dna dna1 dna2 g = Inr (child_dna, g')
      \<longrightarrow> dna_discrete_ok child_dna) \<and>
   (dna_ok genome \<longrightarrow> dna_ok (fst (mutate_dna genome g))) \<and>
   (dna_discrete_ok genome \<longrightarrow> dna_discrete_ok (fst (mutate_dna genome g))) \<and>
   (distinct (map fst genome) \<and> map_of genome key = Some (GeneV gene)
      \<longrightarrow> field_mutated f (gene_field genome key f) (gene_field (fst (mutate_dna genome g)) key f))"
proof (intro conjI impI)
  assume "rng_ok g"
  then show "dna_ok (fst (random_dna g))"
    using random_dna_ok[of g "fst (random_dna g)" "snd (random_dna g)"] by simp
next
  assume "dna_discrete_ok dna1 \<and> dna_discrete_ok dna2 \<and> rng_ok g \<and>
    combine_dna dna1 dna2 g = Inr (child_dna, g')"
  then show "dna_discrete_ok child_dna"
    using combine_dna_discrete[of dna1 dna2 g child_dna g'] by simp
next
  assume "dna_ok genome"
  then show "dna_ok (fst (mutate_dna genome g))" by (rule mutate_dna_ok)
next
  assume "dna_discrete_ok genome"
  then show "dna_discrete_ok (fst (mutate_dna genome g))" by (rule mutate_dna_discrete)
next
  assume "distinct (map fst genome) \<and> map_of genome key = Some (GeneV gene)"
  then show "field_mutated f (gene_field genome key f) (gene_field (fst (mutate_dna genome g)) key f)"
    using mutate_dna_fields[of genome key gene f g] by simp
qed

theorem genome_ranges_preserved_witness:
  "rng_ok (rng_const (1 / 100)) \<and>
   dna_ok [(''lajfi_1'', GeneV [(''m1'', 14), (''n1'', 1 / 2)]), (''fractal_levels'', IntV 3),
           (''speed'', FloatV (3 / 10))] \<and>
   dna_ok [(''lajfi_1'', GeneV [(''m1'', 5), (''n1'', 1 / 4)]), (''fractal_levels'', IntV 2),
           (''speed'', FloatV (1 / 2))] \<and>
   combine_dna
       [(''lajfi_1'', GeneV [(''m1'', 14), (''n1'', 1 / 2)]), (''fractal_levels'', IntV 3),
        (''speed'', FloatV (3 / 10))]
       [(''lajfi_1'', GeneV [(''m1'', 5), (''n1'', 1 / 4)]), (''fractal_levels'', IntV 2),
        (''speed'', FloatV (1 / 2))] (rng_const (1 / 100))
     = Inr ([(''lajfi_1'', GeneV [(''m1'', 14), (''n1'', 1 / 2)]), (''fractal_levels'', IntV 3),
             (''speed'', FloatV (549 / 1250))], rng_const (1 / 100)) \<and>
   dna_discrete_ok
       [(''lajfi_1'', GeneV [(''m1'', 14), (''n1'', 1 / 2)]), (''fractal_levels'', IntV 3),
        (''speed'', FloatV (549 / 1250))] \<and>
   dna_ok (fst (random_dna (rng_const (1 / 100)))) \<and>
   dna_ok (fst (mutate_dna
       [(''lajfi_1'', GeneV [(''m1'', 14), (''n1'', 1 / 2)]), (''fractal_levels'', IntV 3),
        (''speed'', FloatV (3 / 10))]
       (rng_const (1 / 100)))) \<and>
   gene_field (fst (mutate_dna
       [(''lajfi_1'', GeneV [(''m1'', 14), (''n1'', 1 / 2)]), (''fractal_levels'', IntV 3),
        (''speed'', FloatV (3 / 10))]
       (rng_const (1 / 100)))) ''lajfi_1'' ''m1'' = Some 12"
proof -
  let ?g = "rng_const (1 / 100)"
  let ?d1 = "[(''lajfi_1'', GeneV [(''m1'', 14), (''n1'', 1 / 2)]), (''fractal_levels'', IntV 3),
              (''speed'', FloatV (3 / 10))]"
  let ?d2 = "[(''lajfi_1'', GeneV [(''m1'', 5), (''n1'', 1 / 4)]), (''fractal_levels'', IntV 2),
              (''speed'', FloatV (1 / 2))]"
  let ?c = "[(''lajfi_1'', GeneV [(''m1'', 14), (''n1'', 1 / 2)]), (''fractal_levels'', IntV 3),
             (''speed'', FloatV (549 / 1250))]"
  have r: "rng_ok ?g" by (simp add: rng_ok_def rng_const_def)
  have o1: "dna_ok ?d1"
    by (simp add: dna_ok_def value_ok_def gene_ok_def gene_field_ok_def
        MIN_FRACTAL_LEVELS_def MAX_FRACTAL_LEVELS_def)
  have o2: "dna_ok ?d2"
    by (simp add: dna_ok_def value_ok_def gene_ok_def gene_field_ok_def
        MIN_FRACTAL_LEVELS_def MAX_FRACTAL_LEVELS_def)
  note p1 = dna_ok_discrete[OF o1] and p2 = dna_ok_discrete[OF o2]
  have e: "combine_dna ?d1 ?d2 ?g = Inr (?c, ?g)"
    by (simp add: combine_dna_def random_random_def rng_const_def random_choice_def
        random_uniform_def)
  have d: "distinct (map fst ?d1)" by simp
  have m: "map_of ?d1 ''lajfi_1'' = Some (GeneV [(''m1'', 14), (''n1'', 1 / 2)])" by simp
  have v: "gene_field (fst (mutate_dna ?d1 ?g)) ''lajfi_1'' ''m1'' = Some 12"
    by (simp add: gene_field_def mutate_dna_def random_random_def rng_const_def random_randint_def
        random_uniform_def random_choice_def MUTATION_RATE_def MUTATION_STRENGTH_def
        MIN_FRACTAL_LEVELS_def MAX_FRACTAL_LEVELS_def)
  from genome_ranges_preserved[of ?g ?d1 ?d2 ?c ?g ?d1 "''lajfi_1''" "[(''m1'', 14), (''n1'', 1 / 2)]" "''m1''"]
    r o1 o2 p1 p2 e d m v
  show ?thesis by simp
qed

theorem symmetry_after_mutation_counterexample:
  "gene_field (fst (mutate_dna (fst (random_dna (rng_const (99 / 100)))) (rng_const (99 / 100))))
     ''lajfi_1'' ''m1'' = Some 14"
  by (simp add: gene_field_def mutate_dna_def random_dna_def random_gielis_gene_def GIELIS_GENES_def
      random_randint_def random_uniform_def random_random_def rng_const_def MUTATION_RATE_def
      MIN_FRACTAL_LEVELS_def MAX_FRACTAL_LEVELS_def MIN_CHILDREN_def MAX_CHILDREN_def)

section \<open>Claims about the genetics\<close>

lemma combine_keys_total:
  assumes "\<forall>key \<in> set keys. \<exists>v1 v2. map_of dna1 key = Some v1 \<and> map_of dna2 key = Some v2 \<and>
             kinds_match v1 v2"
  shows "\<exists>child g'. combine_keys keys dna1 dna2 c g = Inr (child, g')"
  using assms
proof (induction keys arbitrary: c g)
  case Nil
  then show ?case by simp
next
  case (Cons key keys)
  from Cons.prems obtain v1 v2 where
    v: "map_of dna1 key = Some v1" "map_of dna2 key = Some v2" "kinds_match v1 v2"
    by auto
  from Cons.prems have rest: "\<exists>child g'. combine_keys keys dna1 dna2 c' h = Inr (child, g')"
    for c' h
    by (intro Cons.IH) simp
  show ?case
  proof (cases v1)
    case (GeneV gene1)
    with v(3) obtain gene2 where "v2 = GeneV gene2" by (cases v2) auto
    with v GeneV rest show ?thesis
      by (simp add: Let_def split: prod.splits)
  next
    case (IntV n1)
    with v rest show ?thesis
      by (simp add: Let_def split: prod.splits)
  next
    case (FloatV x1)
    with v rest show ?thesis
      by (cases v2) (simp_all add: Let_def split: prod.splits)
  qed
qed

lemma combine_dna_total:
  assumes "compatible dna1 dna2"
  shows "\<exists>child g'. combine_dna dna1 dna2 g = Inr (child, g')"
proof -
  have "\<exists>v1 v2. map_of dna1 key = Some v1 \<and> map_of dna2 key = Some v2 \<and> kinds_match v1 v2"
    if "key \<in> set (map fst dna1)" for key
  proof -
    from that obtain v1 where m: "map_of dna1 key = Some v1"
      by (metis map_of_eq_None_iff not_None_eq set_map)
    then have "(key, v1) \<in> set dna1" by (rule map_of_SomeD)
    with assms m show ?thesis
      by (auto simp: compatible_def split: option.splits)
  qed
  then show ?thesis
    unfolding combine_dna_def by (intro combine_keys_total) blast
qed

text \<open>
  Claim C5. \<open>combine_dna\<close> returns a child for every pair of genomes it accepts, and in
  the child, before any mutation, every shape gene is the whole gene of one parent: the
  gene under the i-th key of the first parent is that parent's gene when the i-th value of
  the random source is below 1/2 and the second parent's gene otherwise. The loop takes
  exactly one value of the random source per key, so each gene has a draw of its own,
  uniform on [0, 1): each parent is chosen with probability 1/2, gene by gene. No field of
  a gene is ever taken apart.
\<close>

theorem combine_dna_whole_gene:
  assumes "distinct (map fst dna1)"
    and "i < length dna1"
    and "dna1 ! i = (key, GeneV gene1)"
  shows "(compatible dna1 dna2 \<longrightarrow> (\<exists>child_dna g'. combine_dna dna1 dna2 g = Inr (child_dna, g'))) \<and>
         (\<forall>child_dna g'. combine_dna dna1 dna2 g = Inr (child_dna, g') \<longrightarrow>
            (g i < 1 / 2 \<longrightarrow> map_of child_dna key = Some (GeneV gene1)) \<and>
            (\<not> g i < 1 / 2 \<longrightarrow>
               (\<exists>gene2. map_of dna2 key = Some (GeneV gene2) \<and>
                        map_of child_dna key = Some (GeneV gene2))))"
proof (intro conjI allI impI)
  assume "compatible dna1 dna2"
  then show "\<exists>child_dna g'. combine_dna dna1 dna2 g = Inr (child_dna, g')"
    by (rule combine_dna_total)
next
  fix child_dna g'
  assume c: "combine_dna dna1 dna2 g = Inr (child_dna, g')"
  have k: "map fst dna1 ! i = key" using assms(2,3) by simp
  have "(key, GeneV gene1) \<in> set dna1" using assms(2,3) by (metis nth_mem)
  with assms(1) have "map_of dna1 key = Some (GeneV gene1)" by simp
  with combine_keys_gene[of "map fst dna1" dna1 dna2 "[]" g child_dna g' i gene1] assms k c
  have r: "(g i < 1 / 2 \<longrightarrow> map_of child_dna key = Some (GeneV gene1)) \<and>
         (\<not> g i < 1 / 2 \<longrightarrow>
            (\<exists>gene2. map_of dna2 key = Some (GeneV gene2) \<and>
                     map_of child_dna key = Some (GeneV gene2)))"
    by (simp add: combine_dna_def)
  {
    assume "g i < 1 / 2"
    with r show "map_of child_dna key = Some (GeneV gene1)" by simp
  }
  {
    assume "\<not> g i < 1 / 2"
    with r show "\<exists>gene2. map_of dna2 key = Some (GeneV gene2) \<and>
                     map_of child_dna key = Some (GeneV gene2)" by simp
  }
qed

theorem combine_dna_whole_gene_witness:
  "compatible
     [(''lajfi_1'', GeneV [(''m1'', 3), (''n1'', 1 / 2)]), (''speed'', FloatV (3 / 10))]
     [(''lajfi_1'', GeneV [(''m1'', 5), (''n1'', 1 / 4)]), (''speed'', FloatV (1 / 2))] \<and>
   combine_dna [(''lajfi_1'', GeneV [(''m1'', 3), (''n1'', 1 / 2)]), (''speed'', FloatV (3 / 10))]
       [(''lajfi_1'', GeneV [(''m1'', 5), (''n1'', 1 / 4)]), (''speed'', FloatV (1 / 2))] (rng_const (1 / 4))
     = Inr ([(''lajfi_1'', GeneV [(''m1'', 3), (''n1'', 1 / 2)]), (''speed'', FloatV (21 / 50))], rng_const (1 / 4)) \<and>
   map_of [(''lajfi_1'', GeneV [(''m1'', 3), (''n1'', 1 / 2)]), (''speed'', FloatV (21 / 50))] ''lajfi_1''
     = Some (GeneV [(''m1'', 3), (''n1'', 1 / 2)]) \<and>
   combine_dna [(''lajfi_1'', GeneV [(''m1'', 3), (''n1'', 1 / 2)]), (''speed'', FloatV (3 / 10))]
       [(''lajfi_1'', GeneV [(''m1'', 5), (''n1'', 1 / 4)]), (''speed'', FloatV (1 / 2))] (rng_const (3 / 4))
     = Inr ([(''lajfi_1'', GeneV [(''m1'', 5), (''n1'', 1 / 4)]), (''speed'', FloatV (19 / 50))], rng_const (3 / 4)) \<and>
   map_of [(''lajfi_1'', GeneV [(''m1'', 5), (''n1'', 1 / 4)]), (''speed'', FloatV (19 / 50))] ''lajfi_1''
     = Some (GeneV [(''m1'', 5), (''n1'', 1 / 4)])"
proof -
  let ?d1 = "[(''lajfi_1'', GeneV [(''m1'', 3), (''n1'', 1 / 2)]), (''speed'', FloatV (3 / 10))]"
  let ?d2 = "[(''lajfi_1'', GeneV [(''m1'', 5), (''n1'', 1 / 4)]), (''speed'', FloatV (1 / 2))]"
  let ?c1 = "[(''lajfi_1'', GeneV [(''m1'', 3), (''n1'', 1 / 2)]), (''speed'', FloatV (21 / 50))]"
  let ?c2 = "[(''lajfi_1'', GeneV [(''m1'', 5), (''n1'', 1 / 4)]), (''speed'', FloatV (19 / 50))]"
  have m: "compatible ?d1 ?d2"
    by (simp add: compatible_def)
  have e1: "combine_dna ?d1 ?d2 (rng_const (1 / 4)) = Inr (?c1, rng_const (1 / 4))"
    by (simp add: combine_dna_def random_random_def rng_const_def random_uniform_def)
  have e2: "combine_dna ?d1 ?d2 (rng_const (3 / 4)) = Inr (?c2, rng_const (3 / 4))"
    by (simp add: combine_dna_def random_random_def rng_const_def random_uniform_def)
  have d: "distinct (map fst ?d1)" by simp
  have i: "(0::nat) < length ?d1" by simp
  have n: "?d1 ! 0 = (''lajfi_1'', GeneV [(''m1'', 3), (''n1'', 1 / 2)])" by simp
  have l: "rng_const (1 / 4) 0 < (1 / 2 :: real)" "\<not> rng_const (3 / 4) 0 < (1 / 2 :: real)"
    by (simp_all add: rng_const_def)
  from combine_dna_whole_gene[OF d i n, of ?d2 "rng_const (1 / 4)"]
    combine_dna_whole_gene[OF d i n, of ?d2 "rng_const (3 / 4)"] m e1 e2 l
  show ?thesis by simp
qed

section \<open>Claims about the organisms\<close>





lemma attack_Inr:
  assumes "attack c prey g = Inr (won, c', g')"
  shows "c' = c\<lparr>energy := energy c - ATTACK_COST\<rparr> \<and>
         (\<exists>my their. get_strength c' = Inr my \<and> get_strength prey = Inr their \<and>
            won = (my * (0.8 + 0.4 * g 0) > their * (0.6 + 0.8 * g 1)))"
  using assms unfolding attack_def Let_def random_uniform_def random_random_def
  by (auto split: sum.splits)


lemma demo_attack:
  "attack demo_a demo_b (rng_const (1 / 2)) =
     Inr (False, demo_a\<lparr>energy := 72\<rparr>, rng_const (1 / 2))"
  by (simp add: attack_def get_strength_def dna_number_def demo_a_def demo_b_def
      random_uniform_const ATTACK_COST_def)



lemma clamp_to_world_cooldown: "mating_cooldown (clamp_to_world c) = mating_cooldown c"
  unfolding clamp_to_world_def Let_def by (simp split: option.splits prod.splits)

lemma move_towards_cooldown:
  assumes "move_towards c target = Inr c1"
  shows "mating_cooldown c1 = mating_cooldown c"
  using assms unfolding move_towards_def Let_def
  by (auto simp: clamp_to_world_cooldown split: option.splits sum.splits if_splits)

lemma move_random_cooldown:
  assumes "move_random c g = Inr (c2, g2)"
  shows "mating_cooldown c2 = mating_cooldown c"
  using assms unfolding move_random_def Let_def
  by (auto simp: clamp_to_world_cooldown split: option.splits sum.splits if_splits prod.splits)

lemma update_cooldown:
  "mating_cooldown (update c) =
     (if mating_cooldown c > 0 then mating_cooldown c - 1 else mating_cooldown c)"
  by (simp add: update_def Let_def)




text \<open>
  Claim C10. The mating cooldown of an organism is never negative: the constructor sets
  it to 0, \<open>update\<close> lowers it by one only when it is strictly positive, \<open>mate_with\<close> sets
  it to 50 in both parents, and no other method of the organism changes it.
\<close>

theorem mating_cooldown_nonneg:
  "mating_cooldown (fst (new_creature d p ps counter g)) = 0 \<and>
   mating_cooldown (update c) =
     (if mating_cooldown c > 0 then mating_cooldown c - 1 else mating_cooldown c) \<and>
   (0 \<le> mating_cooldown c \<longrightarrow> 0 \<le> mating_cooldown (update c)) \<and>
   (mate_with a b counter g = Inr (a', b', child, counter', g') \<longrightarrow>
      mating_cooldown a' = 50 \<and> mating_cooldown b' = 50 \<and> mating_cooldown child = 0) \<and>
   mating_cooldown (eat c plant_energy) = mating_cooldown c \<and>
   mating_cooldown (snd (devour c victim)) = mating_cooldown c \<and>
   mating_cooldown (clamp_to_world c) = mating_cooldown c \<and>
   (move_towards c target = Inr c1 \<longrightarrow> mating_cooldown c1 = mating_cooldown c) \<and>
   (move_random c g = Inr (c2, g2) \<longrightarrow> mating_cooldown c2 = mating_cooldown c) \<and>
   (attack c prey g = Inr (won, c3, g3) \<longrightarrow> mating_cooldown c3 = mating_cooldown c)"
proof (intro conjI impI)
  show "mating_cooldown (fst (new_creature d p ps counter g)) = 0"
    by (rule new_creature_cooldown)
  show "mating_cooldown (update c) =
     (if mating_cooldown c > 0 then mating_cooldown c - 1 else mating_cooldown c)"
    by (rule update_cooldown)
  show "0 \<le> mating_cooldown (update c)" if "0 \<le> mating_cooldown c"
    using that by (simp add: update_cooldown)
  show "mating_cooldown (eat c plant_energy) = mating_cooldown c"
    by (simp add: eat_def)
  show "mating_cooldown (snd (devour c victim)) = mating_cooldown c"
    by (simp add: devour_def Let_def)
  show "mating_cooldown (clamp_to_world c) = mating_cooldown c"
    by (rule clamp_to_world_cooldown)
  show "mating_cooldown c1 = mating_cooldown c" if "move_towards c target = Inr c1"
    using that by (rule move_towards_cooldown)
  show "mating_cooldown c2 = mating_cooldown c" if "move_random c g = Inr (c2, g2)"
    using that by (rule move_random_cooldown)
  show "mating_cooldown c3 = mating_cooldown c" if "attack c prey g = Inr (won, c3, g3)"
    using attack_Inr[OF that] by simp
next
  assume m: "mate_with a b counter g = Inr (a', b', child, counter', g')"
  from mate_with_Inr[OF m]
  show "mating_cooldown a' = 50" "mating_cooldown b' = 50" "mating_cooldown child = 0"
    by (auto simp: new_creature_cooldown)
qed

theorem mating_cooldown_nonneg_witness:
  "(0::int) \<le> mating_cooldown demo_a \<and> 0 \<le> mating_cooldown (update demo_a) \<and>
   map_option mating_cooldown (mate_first (mate_with demo_a demo_b 2 (rng_const (1 / 2)))) = Some 50 \<and>
   map_option mating_cooldown (mate_child (mate_with demo_a demo_b 2 (rng_const (1 / 2)))) = Some 0 \<and>
   map_sum id mating_cooldown (move_towards demo_a (2, 0, 3)) = Inr 0 \<and>
   map_sum id (mating_cooldown \<circ> fst) (move_random demo_a (rng_const (1 / 2))) = Inr 0 \<and>
   map_option fst (attack_outcome (attack demo_a demo_b (rng_const (1 / 2)))) = Some False"
proof -
  have z: "mating_cooldown demo_a = 0" by (simp add: demo_a_def)
  have mt: "\<exists>c1. move_towards demo_a (2, 0, 3) = Inr c1"
    by (simp add: move_towards_def demo_a_def dna_number_def Let_def)
  then obtain c1 where c1: "move_towards demo_a (2, 0, 3) = Inr c1" ..
  have mr: "\<exists>r. move_random demo_a (rng_const (1 / 2)) = Inr r"
    by (simp add: move_random_def demo_a_def dna_number_def Let_def random_uniform_const)
  then obtain c2 g2 where c2: "move_random demo_a (rng_const (1 / 2)) = Inr (c2, g2)" by force
  from mating_cooldown_nonneg[where c = demo_a and a = demo_a and b = demo_b and counter = 2
      and g = "rng_const (1 / 2)" and target = "(2, 0, 3)" and ?c1.0 = c1 and ?c2.0 = c2 and ?g2.0 = g2
      and prey = demo_b, THEN conjunct2]
    z c1 c2 demo_mate_with demo_attack
  show ?thesis
    by (simp add: mate_first_def mate_child_def attack_outcome_def)
qed


section \<open>Properties of the decision pass\<close>





























end
